theory Spec2Isabelle
  imports Main
begin

section \<open>Characters and strings of the source language\<close>

text \<open>
  A Python \<open>str\<close> is a sequence of Unicode code points.  A \<^typ>\<open>char\<close> stands for a
  code point below 256, so a \<^typ>\<open>string\<close> is a Python string over that range.  The
  predicates below are \<open>str.isspace\<close>, \<open>str.isdecimal\<close>, \<open>str.isdigit\<close> and
  \<open>str.isalnum\<close> of a one-character string, restricted to that range.
\<close>

definition isspace :: "char \<Rightarrow> bool" where
  "isspace c = (let n = (of_char c :: nat) in
     (9 \<le> n \<and> n \<le> 13) \<or> (28 \<le> n \<and> n \<le> 32) \<or> n = 133 \<or> n = 160)"

definition isdecimal :: "char \<Rightarrow> bool" where
  "isdecimal c = (let n = (of_char c :: nat) in 48 \<le> n \<and> n \<le> 57)"

definition isdigit :: "char \<Rightarrow> bool" where
  "isdigit c = (let n = (of_char c :: nat) in
     (48 \<le> n \<and> n \<le> 57) \<or> n = 178 \<or> n = 179 \<or> n = 185)"

definition isalnum :: "char \<Rightarrow> bool" where
  "isalnum c = (let n = (of_char c :: nat) in
     (48 \<le> n \<and> n \<le> 57) \<or> (65 \<le> n \<and> n \<le> 90) \<or> (97 \<le> n \<and> n \<le> 122) \<or>
     n = 170 \<or> n = 178 \<or> n = 179 \<or> n = 181 \<or> n = 185 \<or> n = 186 \<or>
     (188 \<le> n \<and> n \<le> 190) \<or> (192 \<le> n \<and> n \<le> 214) \<or>
     (216 \<le> n \<and> n \<le> 246) \<or> (248 \<le> n \<and> n \<le> 255))"

text \<open>\<open>s.isdigit()\<close>: a non-empty string of digit characters.\<close>

definition str_isdigit :: "string \<Rightarrow> bool" where
  "str_isdigit s = (s \<noteq> [] \<and> list_all isdigit s)"

text \<open>\<open>s.strip()\<close>: leading and trailing whitespace removed.\<close>

definition strip :: "string \<Rightarrow> string" where
  "strip s = rev (dropWhile isspace (rev (dropWhile isspace s)))"

text \<open>
  \<open>int(s)\<close> on a string that passed \<open>isdigit()\<close>: the decimal value when every
  character is a decimal digit, and a \<open>ValueError\<close> (here \<open>None\<close>) otherwise, as for the
  superscript digits, which are digits and not decimal.
\<close>

definition digit_val :: "char \<Rightarrow> int" where
  "digit_val c = int (of_char c) - 48"

definition py_int :: "string \<Rightarrow> int option" where
  "py_int s = (if s \<noteq> [] \<and> list_all isdecimal s
               then Some (foldl (\<lambda>acc c. 10 * acc + digit_val c) 0 s) else None)"

text \<open>\<open>str(n)\<close> of an integer.\<close>

fun str_nat :: "nat \<Rightarrow> string" where
  "str_nat n = (if n < 10 then [char_of (48 + n)]
                else str_nat (n div 10) @ [char_of (48 + n mod 10)])"

declare str_nat.simps [simp del]

definition str_int :: "int \<Rightarrow> string" where
  "str_int i = (if i < 0 then CHR ''-'' # str_nat (nat (- i)) else str_nat (nat i))"

section \<open>Tokens\<close>

datatype TokenType = PLUS | MULTIPLY | LPAREN | RPAREN | ID | INVALID | EOF

text \<open>The string constant behind each member of \<open>TokenType\<close>.\<close>

fun type_name :: "TokenType \<Rightarrow> string" where
  "type_name PLUS = ''PLUS''"
| "type_name MULTIPLY = ''MULTIPLY''"
| "type_name LPAREN = ''LPAREN''"
| "type_name RPAREN = ''RPAREN''"
| "type_name ID = ''ID''"
| "type_name INVALID = ''INVALID''"
| "type_name EOF = ''EOF''"

record Token =
  ttype :: TokenType
  tvalue :: string
  position :: nat
  line :: nat
  column :: nat

text \<open>\<open>Token(token_type, value, position)\<close> with the default line and column.\<close>

definition Token_init :: "TokenType \<Rightarrow> string \<Rightarrow> nat \<Rightarrow> Token" where
  "Token_init t v p = \<lparr>ttype = t, tvalue = v, position = p, line = 1, column = p + 1\<rparr>"

definition is_valid :: "Token \<Rightarrow> bool" where
  "is_valid t = (ttype t \<noteq> INVALID)"

section \<open>Errors\<close>

text \<open>
  The exception classes of \<open>utils/errors.py\<close> with the fields their constructors
  receive, and the built-in exceptions the modelled code can raise.
  \<open>LexicalError message position character\<close>,
  \<open>ParserSyntaxError message position token expected\<close>,
  \<open>SemanticError message position token context\<close>,
  \<open>UnexpectedEndOfInputError expected\<close>.
\<close>

datatype error =
    EmptyInputError
  | LexicalError string nat char
  | ParserSyntaxError string "nat option" "Token option" "string option"
  | SemanticError string "nat option" "Token option" string
  | UnexpectedEndOfInputError string
  | ValueError
  | TypeError
  | AttributeError

section \<open>Lexer\<close>

record Lexer =
  input_string :: string
  lpos :: nat
  current_char :: "char option"
  tokens :: "Token list"
  errors :: "error list"

definition advance :: "Lexer \<Rightarrow> Lexer" where
  "advance lx =
     (let p = lpos lx + 1 in
      lx\<lparr>lpos := p,
         current_char := (if p \<ge> length (input_string lx) then None
                          else Some (input_string lx ! p))\<rparr>)"

text \<open>The number of loop iterations left: every loop of the lexer stops on \<open>None\<close>.\<close>

definition remaining :: "Lexer \<Rightarrow> nat" where
  "remaining lx = (case current_char lx of None \<Rightarrow> 0
                   | Some c \<Rightarrow> Suc (length (input_string lx) - lpos lx))"

lemma remaining_advance: "current_char lx = Some c \<Longrightarrow> remaining (advance lx) < remaining lx"
  by (auto simp: remaining_def advance_def Let_def)

function skip_whitespace :: "Lexer \<Rightarrow> Lexer" where
  "skip_whitespace lx =
     (case current_char lx of
        None \<Rightarrow> lx
      | Some c \<Rightarrow> if isspace c then skip_whitespace (advance lx) else lx)"
  by pat_completeness auto
termination
  by (relation "measure remaining") (auto simp: remaining_advance)

declare skip_whitespace.simps [simp del]

text \<open>
  \<open>_get_next_token\<close> returns the token and the lexer after it.  It reads
  \<open>self.current_char\<close>; on \<open>None\<close> the method call \<open>char.isalnum()\<close> raises.
\<close>

definition get_next_token :: "Lexer \<Rightarrow> error + (Token \<times> Lexer)" where
  "get_next_token lx =
     (case current_char lx of
        None \<Rightarrow> Inl AttributeError
      | Some c \<Rightarrow>
          let p = lpos lx in
          if c = CHR ''+'' then Inr (Token_init PLUS ''+'' p, advance lx)
          else if c = CHR ''*'' then Inr (Token_init MULTIPLY ''*'' p, advance lx)
          else if c = CHR ''('' then Inr (Token_init LPAREN ''('' p, advance lx)
          else if c = CHR '')'' then Inr (Token_init RPAREN '')'' p, advance lx)
          else if isalnum c then Inr (Token_init ID [c] p, advance lx)
          else Inr (Token_init INVALID [c] p,
                    advance (lx\<lparr>errors := errors lx @
                      [LexicalError (''Invalid character '' @ [CHR 0x27, c, CHR 0x27] @ '' found'')
                         p c]\<rparr>)))"

lemma remaining_get_next_token:
  "current_char lx = Some c \<Longrightarrow> get_next_token lx = Inr (tok, lx') \<Longrightarrow>
   remaining (lx'\<lparr>tokens := ts\<rparr>) < remaining lx"
  by (auto simp: get_next_token_def remaining_def advance_def Let_def split: if_splits)

lemma remaining_skip_whitespace:
  "current_char lx = Some c \<Longrightarrow> isspace c \<Longrightarrow> remaining (skip_whitespace lx) < remaining lx"
proof (induction lx arbitrary: c rule: skip_whitespace.induct)
  case (1 lx)
  have step: "remaining (advance lx) < remaining lx"
    using "1.prems"(1) by (rule remaining_advance)
  show ?case
  proof (cases "current_char (advance lx)")
    case None
    then show ?thesis
      using "1.prems" step
      by (simp add: skip_whitespace.simps [of lx] skip_whitespace.simps [of "advance lx"])
  next
    case (Some c')
    show ?thesis
    proof (cases "isspace c'")
      case True
      have "remaining (skip_whitespace (advance lx)) < remaining (advance lx)"
        using "1.IH" [OF "1.prems"(1) "1.prems"(2) Some True] .
      then show ?thesis
        using "1.prems" step by (simp add: skip_whitespace.simps [of lx])
    next
      case False
      then show ?thesis
        using "1.prems" step Some
        by (simp add: skip_whitespace.simps [of lx] skip_whitespace.simps [of "advance lx"])
    qed
  qed
qed

text \<open>The \<open>while self.current_char is not None\<close> loop of \<open>tokenize\<close>.\<close>

function tokenize_loop :: "Lexer \<Rightarrow> error + Lexer" where
  "tokenize_loop lx =
     (case current_char lx of
        None \<Rightarrow> Inr lx
      | Some c \<Rightarrow>
          if isspace c then tokenize_loop (skip_whitespace lx)
          else (case get_next_token lx of
                  Inl e \<Rightarrow> Inl e
                | Inr (tok, lx') \<Rightarrow> tokenize_loop (lx'\<lparr>tokens := tokens lx' @ [tok]\<rparr>)))"
  by pat_completeness auto
termination
  by (relation "measure remaining")
     (auto simp: remaining_skip_whitespace remaining_get_next_token)

declare tokenize_loop.simps [simp del]

definition tokenize :: "string \<Rightarrow> error + Token list" where
  "tokenize input =
     (let s = strip input in
      if s = [] then Inl EmptyInputError
      else (case tokenize_loop \<lparr>input_string = s, lpos = 0, current_char = Some (s ! 0),
                                 tokens = [], errors = []\<rparr> of
              Inl e \<Rightarrow> Inl e
            | Inr lx \<Rightarrow> (case errors lx of e # _ \<Rightarrow> Inl e | [] \<Rightarrow> Inr (tokens lx))))"

section \<open>Parse tree\<close>

text \<open>
  A node carries its rule name, its children in derivation order, the token it was built
  from (terminals only) and the value cached by evaluation.  The fields \<open>depth\<close> and
  \<open>node_id\<close> and the parser's list of trace messages serve the display only; no function
  modelled here reads them, and they are left out.
\<close>

datatype ParseTreeNode =
  ParseTreeNode (rule: string) (children: "ParseTreeNode list")
    (token: "Token option") (node_value: "int option")

text \<open>\<open>a + b if b is not None else a\<close>; adding to \<open>None\<close> raises \<open>TypeError\<close>.\<close>

fun add_unless_none :: "int option \<Rightarrow> int option \<Rightarrow> error + int option" where
  "add_unless_none a None = Inr a"
| "add_unless_none None (Some b) = Inl TypeError"
| "add_unless_none (Some a) (Some b) = Inr (Some (a + b))"

text \<open>\<open>a * b if b is not None else a\<close>.\<close>

fun mul_unless_none :: "int option \<Rightarrow> int option \<Rightarrow> error + int option" where
  "mul_unless_none a None = Inr a"
| "mul_unless_none None (Some b) = Inl TypeError"
| "mul_unless_none (Some a) (Some b) = Inr (Some (a * b))"

text \<open>\<open>a * b if b is not None and b != 1 else a\<close>.\<close>

fun mul_unless_none_or_one :: "int option \<Rightarrow> int option \<Rightarrow> error + int option" where
  "mul_unless_none_or_one a None = Inr a"
| "mul_unless_none_or_one a (Some b) =
     (if b \<noteq> 1 then (case a of None \<Rightarrow> Inl TypeError | Some x \<Rightarrow> Inr (Some (x * b)))
      else Inr a)"

definition is_id_token :: "Token option \<Rightarrow> bool" where
  "is_id_token tok = (case tok of None \<Rightarrow> False | Some t \<Rightarrow> ttype t = ID)"

text \<open>
  \<open>evaluate\<close> writes the cached values while it computes, so the model returns the node
  as the call leaves it together with the outcome: the returned value (\<open>None\<close> is
  Python's \<open>None\<close>) or the exception raised.  When a child raises, the values written
  before stay written and the node's own value is not assigned.
\<close>

fun evaluate :: "ParseTreeNode \<Rightarrow> ParseTreeNode \<times> (error + int option)" where
  "evaluate (ParseTreeNode r cs tok v) =
     (if is_id_token tok then
        (if str_isdigit (tvalue (the tok)) then
           (case py_int (tvalue (the tok)) of
              None \<Rightarrow> (ParseTreeNode r cs tok v, Inl ValueError)
            | Some n \<Rightarrow> (ParseTreeNode r cs tok (Some n), Inr (Some n)))
         else (ParseTreeNode r cs tok (Some 1), Inr (Some 1)))
      else if r = ''E'' then
        (case cs of
           c0 # c1 # rest \<Rightarrow>
             (case evaluate c0 of
                (c0', Inl e) \<Rightarrow> (ParseTreeNode r (c0' # c1 # rest) tok v, Inl e)
              | (c0', Inr t_val) \<Rightarrow>
                  (case evaluate c1 of
                     (c1', Inl e) \<Rightarrow> (ParseTreeNode r (c0' # c1' # rest) tok v, Inl e)
                   | (c1', Inr e_prime_val) \<Rightarrow>
                       (case add_unless_none t_val e_prime_val of
                          Inl e \<Rightarrow> (ParseTreeNode r (c0' # c1' # rest) tok v, Inl e)
                        | Inr x \<Rightarrow> (ParseTreeNode r (c0' # c1' # rest) tok x, Inr x))))
         | _ \<Rightarrow> (ParseTreeNode r cs tok v, Inr v))
      else if r = ''E'' @ [CHR 0x27] then
        (case cs of
           [] \<Rightarrow> (ParseTreeNode r cs tok (Some 0), Inr (Some 0))
         | [c0] \<Rightarrow> (ParseTreeNode r cs tok v, Inr v)
         | [c0, c1] \<Rightarrow>
             (case evaluate c1 of
                (c1', Inl e) \<Rightarrow> (ParseTreeNode r [c0, c1'] tok v, Inl e)
              | (c1', Inr t_val) \<Rightarrow> (ParseTreeNode r [c0, c1'] tok t_val, Inr t_val))
         | c0 # c1 # c2 # rest \<Rightarrow>
             (case evaluate c1 of
                (c1', Inl e) \<Rightarrow> (ParseTreeNode r (c0 # c1' # c2 # rest) tok v, Inl e)
              | (c1', Inr t_val) \<Rightarrow>
                  (case evaluate c2 of
                     (c2', Inl e) \<Rightarrow> (ParseTreeNode r (c0 # c1' # c2' # rest) tok v, Inl e)
                   | (c2', Inr e_prime_val) \<Rightarrow>
                       (case add_unless_none t_val e_prime_val of
                          Inl e \<Rightarrow> (ParseTreeNode r (c0 # c1' # c2' # rest) tok v, Inl e)
                        | Inr x \<Rightarrow> (ParseTreeNode r (c0 # c1' # c2' # rest) tok x, Inr x)))))
      else if r = ''T'' then
        (case cs of
           c0 # c1 # rest \<Rightarrow>
             (case evaluate c0 of
                (c0', Inl e) \<Rightarrow> (ParseTreeNode r (c0' # c1 # rest) tok v, Inl e)
              | (c0', Inr f_val) \<Rightarrow>
                  (case evaluate c1 of
                     (c1', Inl e) \<Rightarrow> (ParseTreeNode r (c0' # c1' # rest) tok v, Inl e)
                   | (c1', Inr t_prime_val) \<Rightarrow>
                       (case mul_unless_none_or_one f_val t_prime_val of
                          Inl e \<Rightarrow> (ParseTreeNode r (c0' # c1' # rest) tok v, Inl e)
                        | Inr x \<Rightarrow> (ParseTreeNode r (c0' # c1' # rest) tok x, Inr x))))
         | _ \<Rightarrow> (ParseTreeNode r cs tok v, Inr v))
      else if r = ''T'' @ [CHR 0x27] then
        (case cs of
           [] \<Rightarrow> (ParseTreeNode r cs tok (Some 1), Inr (Some 1))
         | [c0] \<Rightarrow> (ParseTreeNode r cs tok v, Inr v)
         | [c0, c1] \<Rightarrow>
             (case evaluate c1 of
                (c1', Inl e) \<Rightarrow> (ParseTreeNode r [c0, c1'] tok v, Inl e)
              | (c1', Inr f_val) \<Rightarrow> (ParseTreeNode r [c0, c1'] tok f_val, Inr f_val))
         | c0 # c1 # c2 # rest \<Rightarrow>
             (case evaluate c1 of
                (c1', Inl e) \<Rightarrow> (ParseTreeNode r (c0 # c1' # c2 # rest) tok v, Inl e)
              | (c1', Inr f_val) \<Rightarrow>
                  (case evaluate c2 of
                     (c2', Inl e) \<Rightarrow> (ParseTreeNode r (c0 # c1' # c2' # rest) tok v, Inl e)
                   | (c2', Inr t_prime_val) \<Rightarrow>
                       (case mul_unless_none f_val t_prime_val of
                          Inl e \<Rightarrow> (ParseTreeNode r (c0 # c1' # c2' # rest) tok v, Inl e)
                        | Inr x \<Rightarrow> (ParseTreeNode r (c0 # c1' # c2' # rest) tok x, Inr x)))))
      else if r = ''F'' then
        (case cs of
           [c0] \<Rightarrow>
             (case evaluate c0 of
                (c0', Inl e) \<Rightarrow> (ParseTreeNode r [c0'] tok v, Inl e)
              | (c0', Inr x) \<Rightarrow> (ParseTreeNode r [c0'] tok x, Inr x))
         | c0 # c1 # c2 # rest \<Rightarrow>
             (case evaluate c1 of
                (c1', Inl e) \<Rightarrow> (ParseTreeNode r (c0 # c1' # c2 # rest) tok v, Inl e)
              | (c1', Inr x) \<Rightarrow> (ParseTreeNode r (c0 # c1' # c2 # rest) tok x, Inr x))
         | _ \<Rightarrow> (ParseTreeNode r cs tok v, Inr v))
      else (ParseTreeNode r cs tok v, Inr v))"

text \<open>
  \<open>get_tree_string\<close> draws with box characters beyond code point 255, so the rendered
  text is a list of code points; \<open>ustr\<close> embeds a string of the model.
\<close>

type_synonym ustring = "nat list"

definition ustr :: "string \<Rightarrow> ustring" where
  "ustr s = map of_char s"

definition value_suffix :: "int option \<Rightarrow> ustring" where
  "value_suffix v = (case v of None \<Rightarrow> [] | Some n \<Rightarrow> ustr '' = '' @ ustr (str_int n))"

fun get_tree_string :: "ParseTreeNode \<Rightarrow> ustring \<Rightarrow> bool \<Rightarrow> ustring"
and children_strings :: "ParseTreeNode list \<Rightarrow> ustring \<Rightarrow> ustring" where
  "get_tree_string (ParseTreeNode r cs tok v) prefix is_last =
     (let connector = (if is_last then [0x2514, 0x2500, 0x2500, 0x20]
                       else [0x251C, 0x2500, 0x2500, 0x20]);
          result = (case tok of
                      Some t \<Rightarrow> prefix @ connector @ ustr r @ ustr '': '' @ [0x27] @
                                 ustr (tvalue t) @ [0x27] @ value_suffix v
                    | None \<Rightarrow> prefix @ connector @ ustr r @ value_suffix v);
          child_prefix = prefix @ (if is_last then [0x20, 0x20, 0x20, 0x20]
                                   else [0x2502, 0x20, 0x20, 0x20])
      in result @ [0x0A] @ children_strings cs child_prefix)"
| "children_strings [] child_prefix = []"
| "children_strings (c # cs) child_prefix =
     get_tree_string c child_prefix (cs = []) @ children_strings cs child_prefix"

section \<open>Parser\<close>

text \<open>
  The parser keeps \<open>current_token\<close> equal to \<open>tokens[current_index]\<close>, or \<open>None\<close> past
  the end, at every point, so the model carries the index alone.
\<close>

definition current_token :: "Token list \<Rightarrow> nat \<Rightarrow> Token option" where
  "current_token ts i = (if i < length ts then Some (ts ! i) else None)"

definition consume_token :: "Token list \<Rightarrow> nat \<Rightarrow> TokenType \<Rightarrow> error + nat" where
  "consume_token ts i expected_type =
     (case current_token ts i of
        None \<Rightarrow> Inl (UnexpectedEndOfInputError (type_name expected_type))
      | Some t \<Rightarrow>
          if ttype t \<noteq> expected_type
          then Inl (ParserSyntaxError (''Expected '' @ type_name expected_type)
                      (Some (position t)) (Some t) (Some (type_name expected_type)))
          else Inr (i + 1))"

definition paren_or_identifier :: string where
  "paren_or_identifier = [CHR 0x27] @ ''('' @ [CHR 0x27] @ '' or identifier''"

text \<open>
  The five routines call each other recursively.  The first argument is the number of
  nested calls still allowed: each call passes one less to the calls it makes, and
  \<open>None\<close> says that the allowance was too small.  The result is the node and the index
  after it, or the exception raised.
\<close>

fun parse_E :: "nat \<Rightarrow> Token list \<Rightarrow> nat \<Rightarrow> (error + ParseTreeNode \<times> nat) option"
and parse_E_prime :: "nat \<Rightarrow> Token list \<Rightarrow> nat \<Rightarrow> (error + ParseTreeNode \<times> nat) option"
and parse_T :: "nat \<Rightarrow> Token list \<Rightarrow> nat \<Rightarrow> (error + ParseTreeNode \<times> nat) option"
and parse_T_prime :: "nat \<Rightarrow> Token list \<Rightarrow> nat \<Rightarrow> (error + ParseTreeNode \<times> nat) option"
and parse_F :: "nat \<Rightarrow> Token list \<Rightarrow> nat \<Rightarrow> (error + ParseTreeNode \<times> nat) option" where
  "parse_E 0 ts i = None"
| "parse_E (Suc d) ts i =
     (case parse_T d ts i of
        None \<Rightarrow> None
      | Some (Inl e) \<Rightarrow> Some (Inl e)
      | Some (Inr (t_node, j)) \<Rightarrow>
          (case parse_E_prime d ts j of
             None \<Rightarrow> None
           | Some (Inl e) \<Rightarrow> Some (Inl e)
           | Some (Inr (e_prime_node, k)) \<Rightarrow>
               Some (Inr (ParseTreeNode ''E'' [t_node, e_prime_node] None None, k))))"
| "parse_E_prime 0 ts i = None"
| "parse_E_prime (Suc d) ts i =
     (if (case current_token ts i of None \<Rightarrow> False | Some t \<Rightarrow> ttype t = PLUS) then
        (let plus_node = ParseTreeNode ''+'' [] (current_token ts i) None in
         case consume_token ts i PLUS of
           Inl e \<Rightarrow> Some (Inl e)
         | Inr j \<Rightarrow>
             (case parse_T d ts j of
                None \<Rightarrow> None
              | Some (Inl e) \<Rightarrow> Some (Inl e)
              | Some (Inr (t_node, k)) \<Rightarrow>
                  (case parse_E_prime d ts k of
                     None \<Rightarrow> None
                   | Some (Inl e) \<Rightarrow> Some (Inl e)
                   | Some (Inr (e_prime_node, l)) \<Rightarrow>
                       Some (Inr (ParseTreeNode (''E'' @ [CHR 0x27])
                                    [plus_node, t_node, e_prime_node] None None, l)))))
      else Some (Inr (ParseTreeNode (''E'' @ [CHR 0x27]) [] None None, i)))"
| "parse_T 0 ts i = None"
| "parse_T (Suc d) ts i =
     (case parse_F d ts i of
        None \<Rightarrow> None
      | Some (Inl e) \<Rightarrow> Some (Inl e)
      | Some (Inr (f_node, j)) \<Rightarrow>
          (case parse_T_prime d ts j of
             None \<Rightarrow> None
           | Some (Inl e) \<Rightarrow> Some (Inl e)
           | Some (Inr (t_prime_node, k)) \<Rightarrow>
               Some (Inr (ParseTreeNode ''T'' [f_node, t_prime_node] None None, k))))"
| "parse_T_prime 0 ts i = None"
| "parse_T_prime (Suc d) ts i =
     (if (case current_token ts i of None \<Rightarrow> False | Some t \<Rightarrow> ttype t = MULTIPLY) then
        (let mult_node = ParseTreeNode ''*'' [] (current_token ts i) None in
         case consume_token ts i MULTIPLY of
           Inl e \<Rightarrow> Some (Inl e)
         | Inr j \<Rightarrow>
             (case parse_F d ts j of
                None \<Rightarrow> None
              | Some (Inl e) \<Rightarrow> Some (Inl e)
              | Some (Inr (f_node, k)) \<Rightarrow>
                  (case parse_T_prime d ts k of
                     None \<Rightarrow> None
                   | Some (Inl e) \<Rightarrow> Some (Inl e)
                   | Some (Inr (t_prime_node, l)) \<Rightarrow>
                       Some (Inr (ParseTreeNode (''T'' @ [CHR 0x27])
                                    [mult_node, f_node, t_prime_node] None None, l)))))
      else Some (Inr (ParseTreeNode (''T'' @ [CHR 0x27]) [] None None, i)))"
| "parse_F 0 ts i = None"
| "parse_F (Suc d) ts i =
     (case current_token ts i of
        None \<Rightarrow> Some (Inl (UnexpectedEndOfInputError paren_or_identifier))
      | Some t \<Rightarrow>
          if ttype t = LPAREN then
            (let lparen_node = ParseTreeNode ''('' [] (current_token ts i) None in
             case consume_token ts i LPAREN of
               Inl e \<Rightarrow> Some (Inl e)
             | Inr j \<Rightarrow>
                 (case parse_E d ts j of
                    None \<Rightarrow> None
                  | Some (Inl e) \<Rightarrow> Some (Inl e)
                  | Some (Inr (e_node, k)) \<Rightarrow>
                      (let rparen_node = ParseTreeNode '')'' [] (current_token ts k) None in
                       case consume_token ts k RPAREN of
                         Inl e \<Rightarrow> Some (Inl e)
                       | Inr l \<Rightarrow>
                           Some (Inr (ParseTreeNode ''F'' [lparen_node, e_node, rparen_node]
                                        None None, l)))))
          else if ttype t = ID then
            (let id_node = ParseTreeNode ''id'' [] (current_token ts i) None in
             case consume_token ts i ID of
               Inl e \<Rightarrow> Some (Inl e)
             | Inr j \<Rightarrow> Some (Inr (ParseTreeNode ''F'' [id_node] None None, j)))
          else Some (Inl (ParserSyntaxError (''Expected '' @ paren_or_identifier)
                            (Some (position t)) (Some t) (Some paren_or_identifier))))"

definition is_operator :: "Token \<Rightarrow> bool" where
  "is_operator t = (ttype t = PLUS \<or> ttype t = MULTIPLY)"

definition quoted :: "string \<Rightarrow> string" where
  "quoted s = [CHR 0x27] @ s @ [CHR 0x27]"

text \<open>The loop over adjacent pairs \<open>tokens[i]\<close>, \<open>tokens[i + 1]\<close>.\<close>

fun check_consecutive :: "Token list \<Rightarrow> error + unit" where
  "check_consecutive (current # next_token # rest) =
     (if is_operator current \<and> is_operator next_token
      then Inl (SemanticError
                  (''Consecutive operators '' @ quoted (tvalue current) @ '' and '' @
                   quoted (tvalue next_token) @ '' are not allowed'')
                  (Some (position current)) (Some current) ''operator sequence'')
      else check_consecutive (next_token # rest))"
| "check_consecutive _ = Inr ()"

text \<open>The loop that keeps \<open>paren_count\<close>; it returns the count after the last token.\<close>

fun check_parens :: "Token list \<Rightarrow> int \<Rightarrow> error + int" where
  "check_parens [] paren_count = Inr paren_count"
| "check_parens (t # ts) paren_count =
     (if ttype t = LPAREN then check_parens ts (paren_count + 1)
      else if ttype t = RPAREN then
        (if paren_count - 1 < 0
         then Inl (SemanticError ''Unmatched closing parenthesis''
                     (Some (position t)) (Some t) ''parentheses balance'')
         else check_parens ts (paren_count - 1))
      else check_parens ts paren_count)"

definition perform_semantic_analysis :: "Token list \<Rightarrow> error + unit" where
  "perform_semantic_analysis ts =
     (if ts = [] then Inr ()
      else (case check_consecutive ts of
              Inl e \<Rightarrow> Inl e
            | Inr _ \<Rightarrow>
                if is_operator (ts ! 0)
                then Inl (SemanticError
                            (''Expression cannot start with operator '' @ quoted (tvalue (ts ! 0)))
                            (Some (position (ts ! 0))) (Some (ts ! 0)) ''expression start'')
                else if is_operator (last ts)
                then Inl (SemanticError
                            (''Expression cannot end with operator '' @ quoted (tvalue (last ts)))
                            (Some (position (last ts))) (Some (last ts)) ''expression end'')
                else (case check_parens ts 0 of
                        Inl e \<Rightarrow> Inl e
                      | Inr paren_count \<Rightarrow>
                          if paren_count > 0
                          then Inl (SemanticError
                                      (str_int paren_count @ '' unmatched opening parenthesis(es)'')
                                      None None ''parentheses balance'')
                          else Inr ())))"

fun join :: "string \<Rightarrow> string list \<Rightarrow> string" where
  "join sep [] = []"
| "join sep [x] = x"
| "join sep (x # y # ys) = x @ sep @ join sep (y # ys)"

text \<open>
  The handlers of \<open>parse\<close>: a \<open>ParserSyntaxError\<close> (with its subclass
  \<open>UnexpectedEndOfInputError\<close>) or a \<open>SemanticError\<close> is raised again.  For any other
  exception the handler builds a built-in \<open>SyntaxError\<close> and calls
  \<open>get_detailed_message\<close> on it, which that class does not have.
\<close>

fun except_handler :: "error \<Rightarrow> error" where
  "except_handler (ParserSyntaxError m p t x) = ParserSyntaxError m p t x"
| "except_handler (UnexpectedEndOfInputError x) = UnexpectedEndOfInputError x"
| "except_handler (SemanticError m p t c) = SemanticError m p t c"
| "except_handler _ = AttributeError"

text \<open>
  The part of \<open>parse\<close> inside \<open>try\<close> up to the evaluation: the derivation from \<open>E\<close> and
  the check that no token is left.
\<close>

definition derive :: "nat \<Rightarrow> Token list \<Rightarrow> (error + ParseTreeNode) option" where
  "derive d ts =
     (case parse_E d ts 0 of
        None \<Rightarrow> None
      | Some (Inl e) \<Rightarrow> Some (Inl e)
      | Some (Inr (root, i)) \<Rightarrow>
          if i < length ts
          then Some (Inl (ParserSyntaxError
                            (''Unexpected tokens at end of input: '' @
                             join '', '' (map tvalue (drop i ts)))
                            (case current_token ts i of None \<Rightarrow> None
                             | Some t \<Rightarrow> Some (position t))
                            (current_token ts i) None))
          else Some (Inr root))"

text \<open>
  \<open>parse\<close> with at most \<open>d\<close> nested calls.  On success the model gives the root as
  \<open>parse_tree_root\<close> holds it after evaluation, and the evaluation result.
\<close>

definition parse :: "nat \<Rightarrow> Token list \<Rightarrow> (error + ParseTreeNode \<times> int option) option" where
  "parse d ts =
     (if ts = [] then Some (Inl (UnexpectedEndOfInputError ''expression''))
      else (case perform_semantic_analysis ts of
              Inl e \<Rightarrow> Some (Inl e)
            | Inr _ \<Rightarrow>
                (case derive d ts of
                   None \<Rightarrow> None
                 | Some (Inl e) \<Rightarrow> Some (Inl (except_handler e))
                 | Some (Inr root) \<Rightarrow>
                     (case evaluate root of
                        (root', Inl e) \<Rightarrow> Some (Inl (except_handler e))
                      | (root', Inr result) \<Rightarrow> Some (Inr (root', result))))))"

section \<open>Statements about the lexer\<close>

text \<open>
  The lexer in the state it has when it stands at offset \<open>p\<close> of the input \<open>s\<close> with
  the tokens and errors collected so far.
\<close>

definition lexer_at :: "string \<Rightarrow> nat \<Rightarrow> Token list \<Rightarrow> error list \<Rightarrow> Lexer" where
  "lexer_at s p toks errs =
     \<lparr>input_string = s, lpos = p,
      current_char = (if p < length s then Some (s ! p) else None),
      tokens = toks, errors = errs\<rparr>"

definition char_kind :: "char \<Rightarrow> TokenType" where
  "char_kind c =
     (if c = CHR ''+'' then PLUS else if c = CHR ''*'' then MULTIPLY
      else if c = CHR ''('' then LPAREN else if c = CHR '')'' then RPAREN
      else if isalnum c then ID else INVALID)"

definition invalid_char :: "char \<Rightarrow> bool" where
  "invalid_char c =
     (\<not> isalnum c \<and> c \<noteq> CHR ''+'' \<and> c \<noteq> CHR ''*'' \<and> c \<noteq> CHR ''('' \<and> c \<noteq> CHR '')'' \<and>
      \<not> isspace c)"

definition char_error :: "nat \<times> char \<Rightarrow> error" where
  "char_error ic = LexicalError (''Invalid character '' @ [CHR 0x27, snd ic, CHR 0x27] @ '' found'')
                     (fst ic) (snd ic)"

definition char_token :: "nat \<times> char \<Rightarrow> Token" where
  "char_token ic = Token_init (char_kind (snd ic)) [snd ic] (fst ic)"

definition scan_tokens :: "nat \<Rightarrow> string \<Rightarrow> Token list" where
  "scan_tokens p s = map char_token (filter (\<lambda>ic. \<not> isspace (snd ic)) (enumerate p s))"

definition scan_errors :: "nat \<Rightarrow> string \<Rightarrow> error list" where
  "scan_errors p s = map char_error (filter (\<lambda>ic. invalid_char (snd ic)) (enumerate p s))"

definition spec_kind :: "char \<Rightarrow> TokenType" where
  "spec_kind c =
     (if c = CHR ''+'' then PLUS else if c = CHR ''*'' then MULTIPLY
      else if c = CHR ''('' then LPAREN else if c = CHR '')'' then RPAREN else ID)"

section \<open>Statements about the semantic checks\<close>

text \<open>
  The checks as the specification words them: an adjacent pair of operators anywhere,
  the first and the last token, and the running count of open parentheses after each
  prefix of the sequence.  \<open>spec_pre_checks\<close> gives the error of the first rule
  violated, in the order of the specification, or \<open>None\<close> when every rule holds.
\<close>

definition adjacent_operators :: "Token \<times> Token \<Rightarrow> bool" where
  "adjacent_operators ab = (is_operator (fst ab) \<and> is_operator (snd ab))"

definition paren_delta :: "Token \<Rightarrow> int" where
  "paren_delta t = (if ttype t = LPAREN then 1 else if ttype t = RPAREN then - 1 else 0)"

definition running_count :: "Token list \<Rightarrow> nat \<Rightarrow> int" where
  "running_count ts k = sum_list (map paren_delta (take k ts))"

definition consecutive_error :: "Token \<times> Token \<Rightarrow> error" where
  "consecutive_error ab =
     SemanticError (''Consecutive operators '' @ quoted (tvalue (fst ab)) @ '' and '' @
                    quoted (tvalue (snd ab)) @ '' are not allowed'')
       (Some (position (fst ab))) (Some (fst ab)) ''operator sequence''"

definition spec_pre_checks :: "Token list \<Rightarrow> error option" where
  "spec_pre_checks ts =
     (if ts = [] then Some (UnexpectedEndOfInputError ''expression'')
      else (case find adjacent_operators (zip ts (tl ts)) of
              Some ab \<Rightarrow> Some (consecutive_error ab)
            | None \<Rightarrow>
                if is_operator (hd ts)
                then Some (SemanticError
                             (''Expression cannot start with operator '' @ quoted (tvalue (hd ts)))
                             (Some (position (hd ts))) (Some (hd ts)) ''expression start'')
                else if is_operator (last ts)
                then Some (SemanticError
                             (''Expression cannot end with operator '' @ quoted (tvalue (last ts)))
                             (Some (position (last ts))) (Some (last ts)) ''expression end'')
                else (case find (\<lambda>k. running_count ts (Suc k) < 0) [0..<length ts] of
                        Some k \<Rightarrow> Some (SemanticError ''Unmatched closing parenthesis''
                                          (Some (position (ts ! k))) (Some (ts ! k))
                                          ''parentheses balance'')
                      | None \<Rightarrow>
                          if running_count ts (length ts) > 0
                          then Some (SemanticError
                                       (str_int (running_count ts (length ts)) @
                                        '' unmatched opening parenthesis(es)'')
                                       None None ''parentheses balance'')
                          else None)))"


section \<open>Derivations of the grammar\<close>

text \<open>
  The parsing routines look at the current token through the same three questions: is
  there a token of a given kind at the current index, what error does a failed
  \<open>_consume_token\<close> raise, and what error does \<open>_parse_F\<close> raise when it sees neither
  a parenthesis nor an identifier.
\<close>

definition looking_at :: "Token list \<Rightarrow> nat \<Rightarrow> TokenType \<Rightarrow> bool" where
  "looking_at ts i ty = (i < length ts \<and> ttype (ts ! i) = ty)"

definition E_prime :: string where "E_prime = ''E'' @ [CHR 0x27]"
definition T_prime :: string where "T_prime = ''T'' @ [CHR 0x27]"

definition leaf :: "string \<Rightarrow> Token \<Rightarrow> ParseTreeNode" where
  "leaf r t = ParseTreeNode r [] (Some t) None"

definition mismatch :: "Token list \<Rightarrow> nat \<Rightarrow> TokenType \<Rightarrow> error" where
  "mismatch ts i ty =
     (if i < length ts
      then ParserSyntaxError (''Expected '' @ type_name ty) (Some (position (ts ! i)))
             (Some (ts ! i)) (Some (type_name ty))
      else UnexpectedEndOfInputError (type_name ty))"

definition no_factor :: "Token list \<Rightarrow> nat \<Rightarrow> error" where
  "no_factor ts i =
     (if i < length ts
      then ParserSyntaxError (''Expected '' @ paren_or_identifier) (Some (position (ts ! i)))
             (Some (ts ! i)) (Some paren_or_identifier)
      else UnexpectedEndOfInputError paren_or_identifier)"


text \<open>
  The trees that the five routines build, as a relation between the token list, the index
  before, the node and the index after.  Each rule is one alternative of the grammar
  \<open>E \<rightarrow> T E'\<close>, \<open>E' \<rightarrow> + T E' | \<epsilon>\<close>, \<open>T \<rightarrow> F T'\<close>, \<open>T' \<rightarrow> * F T' | \<epsilon>\<close>, \<open>F \<rightarrow> ( E ) | id\<close>.
\<close>

inductive derives_E :: "Token list \<Rightarrow> nat \<Rightarrow> ParseTreeNode \<Rightarrow> nat \<Rightarrow> bool"
  and derives_E_prime :: "Token list \<Rightarrow> nat \<Rightarrow> ParseTreeNode \<Rightarrow> nat \<Rightarrow> bool"
  and derives_T :: "Token list \<Rightarrow> nat \<Rightarrow> ParseTreeNode \<Rightarrow> nat \<Rightarrow> bool"
  and derives_T_prime :: "Token list \<Rightarrow> nat \<Rightarrow> ParseTreeNode \<Rightarrow> nat \<Rightarrow> bool"
  and derives_F :: "Token list \<Rightarrow> nat \<Rightarrow> ParseTreeNode \<Rightarrow> nat \<Rightarrow> bool"
where
  E: "derives_T ts i t j \<Longrightarrow> derives_E_prime ts j e k \<Longrightarrow>
      derives_E ts i (ParseTreeNode ''E'' [t, e] None None) k"
| E_plus: "looking_at ts i PLUS \<Longrightarrow> derives_T ts (Suc i) t k \<Longrightarrow> derives_E_prime ts k e l \<Longrightarrow>
      derives_E_prime ts i (ParseTreeNode E_prime [leaf ''+'' (ts ! i), t, e] None None) l"
| E_eps: "\<not> looking_at ts i PLUS \<Longrightarrow> derives_E_prime ts i (ParseTreeNode E_prime [] None None) i"
| T: "derives_F ts i f j \<Longrightarrow> derives_T_prime ts j t k \<Longrightarrow>
      derives_T ts i (ParseTreeNode ''T'' [f, t] None None) k"
| T_times: "looking_at ts i MULTIPLY \<Longrightarrow> derives_F ts (Suc i) f k \<Longrightarrow>
      derives_T_prime ts k t l \<Longrightarrow>
      derives_T_prime ts i (ParseTreeNode T_prime [leaf ''*'' (ts ! i), f, t] None None) l"
| T_eps: "\<not> looking_at ts i MULTIPLY \<Longrightarrow>
      derives_T_prime ts i (ParseTreeNode T_prime [] None None) i"
| F_paren: "looking_at ts i LPAREN \<Longrightarrow> derives_E ts (Suc i) e k \<Longrightarrow> looking_at ts k RPAREN \<Longrightarrow>
      derives_F ts i (ParseTreeNode ''F'' [leaf ''('' (ts ! i), e, leaf '')'' (ts ! k)] None None)
        (Suc k)"
| F_id: "looking_at ts i ID \<Longrightarrow>
      derives_F ts i (ParseTreeNode ''F'' [leaf ''id'' (ts ! i)] None None) (Suc i)"


text \<open>The tokens at the leaves of a tree, left to right, and a slice of a list.\<close>

fun terminal_leaves :: "ParseTreeNode \<Rightarrow> Token list" where
  "terminal_leaves (ParseTreeNode r cs tok v) =
     (if cs = [] then (case tok of None \<Rightarrow> [] | Some t \<Rightarrow> [t])
      else concat (map terminal_leaves cs))"

definition slice :: "'a list \<Rightarrow> nat \<Rightarrow> nat \<Rightarrow> 'a list" where
  "slice xs i j = take (j - i) (drop i xs)"


section \<open>The shape of an evaluation\<close>

text \<open>
  \<open>evaluate\<close> on a node without an identifier token does one of four things, chosen by the
  rule name and the number of children: nothing, store a constant, store the value of one
  child, or store a combination of the values of two children.
\<close>

datatype arith = Add | Mul | MulUnlessOne

fun apply_arith :: "arith \<Rightarrow> int option \<Rightarrow> int option \<Rightarrow> error + int option" where
  "apply_arith Add a b = add_unless_none a b"
| "apply_arith Mul a b = mul_unless_none a b"
| "apply_arith MulUnlessOne a b = mul_unless_none_or_one a b"

datatype plan =
    Keep
  | Const int
  | Unary "ParseTreeNode list" ParseTreeNode "ParseTreeNode list"
  | Binary "ParseTreeNode list" ParseTreeNode ParseTreeNode "ParseTreeNode list" arith

definition evaluation_plan :: "string \<Rightarrow> ParseTreeNode list \<Rightarrow> plan" where
  "evaluation_plan r cs =
     (if r = ''E'' then
        (case cs of c0 # c1 # rest \<Rightarrow> Binary [] c0 c1 rest Add | _ \<Rightarrow> Keep)
      else if r = ''E'' @ [CHR 0x27] then
        (case cs of
           [] \<Rightarrow> Const 0
         | [c0] \<Rightarrow> Keep
         | [c0, c1] \<Rightarrow> Unary [c0] c1 []
         | c0 # c1 # c2 # rest \<Rightarrow> Binary [c0] c1 c2 rest Add)
      else if r = ''T'' then
        (case cs of c0 # c1 # rest \<Rightarrow> Binary [] c0 c1 rest MulUnlessOne | _ \<Rightarrow> Keep)
      else if r = ''T'' @ [CHR 0x27] then
        (case cs of
           [] \<Rightarrow> Const 1
         | [c0] \<Rightarrow> Keep
         | [c0, c1] \<Rightarrow> Unary [c0] c1 []
         | c0 # c1 # c2 # rest \<Rightarrow> Binary [c0] c1 c2 rest Mul)
      else if r = ''F'' then
        (case cs of
           [c0] \<Rightarrow> Unary [] c0 []
         | c0 # c1 # c2 # rest \<Rightarrow> Unary [c0] c1 (c2 # rest)
         | _ \<Rightarrow> Keep)
      else Keep)"

fun run_plan ::
  "string \<Rightarrow> Token option \<Rightarrow> int option \<Rightarrow> ParseTreeNode list \<Rightarrow> plan \<Rightarrow>
   ParseTreeNode \<times> (error + int option)" where
  "run_plan r tok v cs Keep = (ParseTreeNode r cs tok v, Inr v)"
| "run_plan r tok v cs (Const k) = (ParseTreeNode r cs tok (Some k), Inr (Some k))"
| "run_plan r tok v cs (Unary pre c post) =
     (case evaluate c of
        (c', Inl e) \<Rightarrow> (ParseTreeNode r (pre @ c' # post) tok v, Inl e)
      | (c', Inr x) \<Rightarrow> (ParseTreeNode r (pre @ c' # post) tok x, Inr x))"
| "run_plan r tok v cs (Binary pre ca cb post op) =
     (case evaluate ca of
        (ca', Inl e) \<Rightarrow> (ParseTreeNode r (pre @ ca' # cb # post) tok v, Inl e)
      | (ca', Inr a) \<Rightarrow>
          (case evaluate cb of
             (cb', Inl e) \<Rightarrow> (ParseTreeNode r (pre @ ca' # cb' # post) tok v, Inl e)
           | (cb', Inr b) \<Rightarrow>
               (case apply_arith op a b of
                  Inl e \<Rightarrow> (ParseTreeNode r (pre @ ca' # cb' # post) tok v, Inl e)
                | Inr x \<Rightarrow> (ParseTreeNode r (pre @ ca' # cb' # post) tok x, Inr x))))"

definition evaluate_id ::
  "string \<Rightarrow> Token option \<Rightarrow> int option \<Rightarrow> ParseTreeNode list \<Rightarrow>
   ParseTreeNode \<times> (error + int option)" where
  "evaluate_id r tok v cs =
     (if str_isdigit (tvalue (the tok)) then
        (case py_int (tvalue (the tok)) of
           None \<Rightarrow> (ParseTreeNode r cs tok v, Inl ValueError)
         | Some n \<Rightarrow> (ParseTreeNode r cs tok (Some n), Inr (Some n)))
      else (ParseTreeNode r cs tok (Some 1), Inr (Some 1)))"


text \<open>
  What the evaluation rules say about the cached values of a node and of its children, and
  the trees in which every node follows them.
\<close>

definition plus_values :: "int option \<Rightarrow> int option \<Rightarrow> int option" where
  "plus_values a b = (case (a, b) of (Some x, Some y) \<Rightarrow> Some (x + y) | _ \<Rightarrow> None)"

definition times_values :: "int option \<Rightarrow> int option \<Rightarrow> int option" where
  "times_values a b = (case (a, b) of (Some x, Some y) \<Rightarrow> Some (x * y) | _ \<Rightarrow> None)"

fun follows_rule :: "ParseTreeNode \<Rightarrow> bool" where
  "follows_rule (ParseTreeNode r cs tok v) =
     (if r = ''E'' then
        (case cs of
           [t, e] \<Rightarrow> rule t = ''T'' \<and> rule e = E_prime \<and> v \<noteq> None \<and>
                     v = plus_values (node_value t) (node_value e)
         | _ \<Rightarrow> False)
      else if r = E_prime then
        (case cs of
           [] \<Rightarrow> v = Some 0
         | [p, t, e] \<Rightarrow> rule p = ''+'' \<and> rule t = ''T'' \<and> rule e = E_prime \<and> v \<noteq> None \<and>
                        v = plus_values (node_value t) (node_value e)
         | _ \<Rightarrow> False)
      else if r = ''T'' then
        (case cs of
           [f, t] \<Rightarrow> rule f = ''F'' \<and> rule t = T_prime \<and> v \<noteq> None \<and>
                     v = (if node_value t = Some 1 then node_value f
                          else times_values (node_value f) (node_value t))
         | _ \<Rightarrow> False)
      else if r = T_prime then
        (case cs of
           [] \<Rightarrow> v = Some 1
         | [m, f, t] \<Rightarrow> rule m = ''*'' \<and> rule f = ''F'' \<and> rule t = T_prime \<and> v \<noteq> None \<and>
                        v = times_values (node_value f) (node_value t)
         | _ \<Rightarrow> False)
      else if r = ''F'' then
        (case cs of
           [i] \<Rightarrow> rule i = ''id'' \<and> v \<noteq> None \<and> v = node_value i
         | [l, e, rp] \<Rightarrow> rule l = ''('' \<and> rule e = ''E'' \<and> rule rp = '')'' \<and> v \<noteq> None \<and>
                         v = node_value e
         | _ \<Rightarrow> False)
      else if r = ''id'' then
        cs = [] \<and>
        (case tok of
           None \<Rightarrow> False
         | Some t \<Rightarrow> if str_isdigit (tvalue t) then v \<noteq> None \<and> v = py_int (tvalue t)
                     else v = Some 1)
      else (r = ''+'' \<or> r = ''*'' \<or> r = ''('' \<or> r = '')'') \<and> cs = [] \<and> tok \<noteq> None)"

fun well_evaluated :: "ParseTreeNode \<Rightarrow> bool" where
  "well_evaluated (ParseTreeNode r cs tok v) =
     (follows_rule (ParseTreeNode r cs tok v) \<and> list_all well_evaluated cs)"

definition evaluates_well :: "string \<Rightarrow> ParseTreeNode \<Rightarrow> bool" where
  "evaluates_well rn n =
     (\<forall>n' x. evaluate n = (n', Inr x) \<longrightarrow>
        well_evaluated n' \<and> node_value n' = x \<and> x \<noteq> None \<and> rule n' = rn)"


subsection \<open>The scan, character by character\<close>

lemma advance_lexer_at: "advance (lexer_at s p toks errs) = lexer_at s (Suc p) toks errs"
  by (simp add: advance_def lexer_at_def)

lemma skip_whitespace_lexer_at:
  "skip_whitespace (lexer_at s p toks errs) =
   lexer_at s (p + length (takeWhile isspace (drop p s))) toks errs"
proof (induction "length s - p" arbitrary: p rule: less_induct)
  case less
  show ?case
  proof (cases "p < length s")
    case False
    then show ?thesis
      by (subst skip_whitespace.simps) (simp add: lexer_at_def)
  next
    case True
    then have d: "drop p s = s ! p # drop (Suc p) s"
      by (simp add: Cons_nth_drop_Suc)
    show ?thesis
    proof (cases "isspace (s ! p)")
      case False
      then show ?thesis
        using True d
        by (subst skip_whitespace.simps) (simp add: lexer_at_def)
    next
      case sp: True
      have "skip_whitespace (lexer_at s p toks errs) =
            skip_whitespace (lexer_at s (Suc p) toks errs)"
        using True sp
        by (subst skip_whitespace.simps) (simp add: lexer_at_def advance_def)
      also have "\<dots> = lexer_at s (Suc p + length (takeWhile isspace (drop (Suc p) s))) toks errs"
        using True by (intro less) simp
      finally show ?thesis using sp d by simp
    qed
  qed
qed

lemma scan_tokens_skip:
  "scan_tokens p xs = scan_tokens (p + length (takeWhile isspace xs)) (dropWhile isspace xs)"
  by (induction xs arbitrary: p) (auto simp: scan_tokens_def)

lemma scan_errors_skip:
  "scan_errors p xs = scan_errors (p + length (takeWhile isspace xs)) (dropWhile isspace xs)"
  by (induction xs arbitrary: p) (auto simp: scan_errors_def invalid_char_def)

lemma lexer_at_sel:
  "tokens (lexer_at s p toks errs) = toks"
  "errors (lexer_at s p toks errs) = errs"
  "current_char (lexer_at s p toks errs) = (if p < length s then Some (s ! p) else None)"
  "(lexer_at s p toks errs)\<lparr>tokens := toks'\<rparr> = lexer_at s p toks' errs"
  by (simp_all add: lexer_at_def)

lemma get_next_token_lexer_at:
  "p < length s \<Longrightarrow> \<not> isspace (s ! p) \<Longrightarrow>
   get_next_token (lexer_at s p toks errs) =
   Inr (char_token (p, s ! p),
        lexer_at s (Suc p) toks (errs @ (if invalid_char (s ! p) then [char_error (p, s ! p)] else [])))"
  by (auto simp: get_next_token_def lexer_at_def advance_def char_token_def char_kind_def
        invalid_char_def char_error_def Let_def)

lemma tokenize_loop_lexer_at:
  "tokenize_loop (lexer_at s p toks errs) =
   Inr (lexer_at s (max p (length s)) (toks @ scan_tokens p (drop p s))
          (errs @ scan_errors p (drop p s)))"
proof (induction "length s - p" arbitrary: p toks errs rule: less_induct)
  case less
  show ?case
  proof (cases "p < length s")
    case False
    then show ?thesis
      by (subst tokenize_loop.simps) (simp add: lexer_at_def scan_tokens_def scan_errors_def)
  next
    case True
    then have d: "drop p s = s ! p # drop (Suc p) s"
      by (simp add: Cons_nth_drop_Suc)
    have cur: "current_char (lexer_at s p toks errs) = Some (s ! p)"
      using True by (simp add: lexer_at_def)
    show ?thesis
    proof (cases "isspace (s ! p)")
      case sp: True
      let ?q = "p + length (takeWhile isspace (drop p s))"
      have q: "p < ?q" "?q \<le> length s"
        using sp d True length_takeWhile_le [of isspace "drop p s"] by auto
      have dq: "drop ?q s = dropWhile isspace (drop p s)"
        by (simp add: dropWhile_eq_drop add.commute)
      have "tokenize_loop (lexer_at s p toks errs) = tokenize_loop (lexer_at s ?q toks errs)"
        using cur sp by (subst tokenize_loop.simps) (simp add: skip_whitespace_lexer_at)
      also have "\<dots> = Inr (lexer_at s (max ?q (length s)) (toks @ scan_tokens ?q (drop ?q s))
                           (errs @ scan_errors ?q (drop ?q s)))"
        using q by (intro less) linarith
      finally show ?thesis
        using q True dq scan_tokens_skip [of p "drop p s"] scan_errors_skip [of p "drop p s"]
        by (simp add: max_def)
    next
      case nsp: False
      let ?e = "errs @ (if invalid_char (s ! p) then [char_error (p, s ! p)] else [])"
      have "tokenize_loop (lexer_at s p toks errs) =
            tokenize_loop (lexer_at s (Suc p) (toks @ [char_token (p, s ! p)]) ?e)"
        using cur nsp True
        by (subst tokenize_loop.simps) (simp add: get_next_token_lexer_at lexer_at_sel)
      also have "\<dots> = Inr (lexer_at s (max (Suc p) (length s))
                           ((toks @ [char_token (p, s ! p)]) @ scan_tokens (Suc p) (drop (Suc p) s))
                           (?e @ scan_errors (Suc p) (drop (Suc p) s)))"
        using True by (intro less) linarith
      finally show ?thesis
        using True nsp d by (simp add: max_def scan_tokens_def scan_errors_def invalid_char_def)
    qed
  qed
qed

lemma tokenize_scan:
  "tokenize input =
     (if strip input = [] then Inl EmptyInputError
      else (case scan_errors 0 (strip input) of
              e # _ \<Rightarrow> Inl e
            | [] \<Rightarrow> Inr (scan_tokens 0 (strip input))))"
proof (cases "strip input = []")
  case True
  then show ?thesis by (simp add: tokenize_def)
next
  case False
  then have init: "\<lparr>input_string = strip input, lpos = 0, current_char = Some (strip input ! 0),
                    tokens = [], errors = []\<rparr> = lexer_at (strip input) 0 [] []"
    by (simp add: lexer_at_def)
  show ?thesis
    using False
    by (simp add: tokenize_def Let_def init tokenize_loop_lexer_at lexer_at_sel
          split: list.splits)
qed

lemma scan_errors_Nil:
  "scan_errors p s = [] \<longleftrightarrow> (\<forall>c \<in> set s. \<not> invalid_char c)"
  by (induction s arbitrary: p) (auto simp: scan_errors_def)

lemma scan_errors_find:
  "find (\<lambda>ic. invalid_char (snd ic)) (enumerate p s) = Some ic \<Longrightarrow>
   \<exists>r. scan_errors p s = char_error ic # r"
  by (induction s arbitrary: p) (auto simp: scan_errors_def split: if_splits)

lemma enumerate_snd_mem: "ic \<in> set (enumerate p s) \<Longrightarrow> snd ic \<in> set s"
  by (cases ic) (auto simp: in_set_enumerate_eq)

lemma find_invalid_None:
  "find (\<lambda>ic. invalid_char (snd ic)) (enumerate p s) = None \<longleftrightarrow> (\<forall>c \<in> set s. \<not> invalid_char c)"
  by (induction s arbitrary: p) auto

lemma char_kind_valid: "\<not> invalid_char c \<Longrightarrow> \<not> isspace c \<Longrightarrow> char_kind c \<noteq> INVALID"
  by (auto simp: invalid_char_def char_kind_def)

lemma ttype_char_token: "ttype (char_token ic) = char_kind (snd ic)"
  by (simp add: char_token_def Token_init_def)

lemma scan_tokens_valid:
  assumes "\<forall>c \<in> set s. \<not> invalid_char c" and "t \<in> set (scan_tokens p s)"
  shows "ttype t \<noteq> INVALID"
proof -
  from assms(2) obtain ic where ic: "ic \<in> set (enumerate p s)" "\<not> isspace (snd ic)"
      "t = char_token ic"
    by (auto simp: scan_tokens_def)
  from ic(1) have "snd ic \<in> set s" by (rule enumerate_snd_mem)
  with assms(1) have "\<not> invalid_char (snd ic)" by blast
  then show ?thesis using ic(2,3) by (simp add: ttype_char_token char_kind_valid)
qed

text \<open>
  Claim C3.  \<open>tokenize\<close> fails with \<open>EmptyInputError\<close> exactly when the stripped input
  is empty.  It fails with a \<open>LexicalError\<close> exactly when the stripped input is not empty
  and holds a character that is neither alphanumeric, nor one of \<open>+ * ( )\<close>, nor
  whitespace; the error raised is the one of the first such character, with its offset.
  Otherwise it returns tokens, none of kind \<open>INVALID\<close>.  The scan itself goes to the end
  of the input and records one error for every such character.
\<close>

theorem tokenize_failures:
  "(tokenize input = Inl EmptyInputError \<longleftrightarrow> length (strip input) = 0) \<and>
   ((\<exists>m p c. tokenize input = Inl (LexicalError m p c)) \<longleftrightarrow>
      strip input \<noteq> [] \<and> (\<exists>c \<in> set (strip input). invalid_char c)) \<and>
   (strip input \<noteq> [] \<longrightarrow>
      (case find (\<lambda>ic. invalid_char (snd ic)) (enumerate 0 (strip input)) of
         Some ic \<Rightarrow> tokenize input = Inl (char_error ic)
       | None \<Rightarrow> (\<exists>ts. tokenize input = Inr ts \<and> (\<forall>t \<in> set ts. ttype t \<noteq> INVALID)))) \<and>
   (strip input \<noteq> [] \<longrightarrow>
      (\<exists>lx. tokenize_loop \<lparr>input_string = strip input, lpos = 0,
                           current_char = Some (strip input ! 0), tokens = [], errors = []\<rparr>
              = Inr lx \<and>
            errors lx = map char_error
                          (filter (\<lambda>ic. invalid_char (snd ic)) (enumerate 0 (strip input)))))"
proof -
  let ?s = "strip input"
  let ?f = "find (\<lambda>ic. invalid_char (snd ic)) (enumerate 0 ?s)"
  have A: "?f = None \<Longrightarrow> scan_errors 0 ?s = []"
    by (simp add: scan_errors_Nil find_invalid_None)
  have B: "?f = Some ic \<Longrightarrow> \<exists>r. scan_errors 0 ?s = char_error ic # r" for ic
    by (rule scan_errors_find)
  have C: "?f = None \<longleftrightarrow> (\<forall>c \<in> set ?s. \<not> invalid_char c)"
    by (rule find_invalid_None)
  have c1: "tokenize input = Inl EmptyInputError \<longleftrightarrow> length ?s = 0"
  proof (cases ?f)
    case None
    then show ?thesis using A by (simp add: tokenize_scan)
  next
    case (Some ic)
    then show ?thesis using B [OF Some] by (auto simp: tokenize_scan char_error_def)
  qed
  have c3: "?s \<noteq> [] \<longrightarrow>
      (case ?f of Some ic \<Rightarrow> tokenize input = Inl (char_error ic)
       | None \<Rightarrow> (\<exists>ts. tokenize input = Inr ts \<and> (\<forall>t \<in> set ts. ttype t \<noteq> INVALID)))"
  proof (cases ?f)
    case None
    then show ?thesis
      using A C scan_tokens_valid [of ?s _ 0] by (auto simp: tokenize_scan)
  next
    case (Some ic)
    then show ?thesis using B [OF Some] by (auto simp: tokenize_scan)
  qed
  have c2: "(\<exists>m p c. tokenize input = Inl (LexicalError m p c)) \<longleftrightarrow>
      ?s \<noteq> [] \<and> (\<exists>c \<in> set ?s. invalid_char c)"
  proof (cases ?f)
    case None
    then show ?thesis using A C by (auto simp: tokenize_scan)
  next
    case (Some ic)
    then have "\<exists>c \<in> set ?s. invalid_char c" using C by auto
    then show ?thesis using B [OF Some] Some by (auto simp: tokenize_scan char_error_def)
  qed
  have c4: "?s \<noteq> [] \<longrightarrow>
      (\<exists>lx. tokenize_loop \<lparr>input_string = ?s, lpos = 0, current_char = Some (?s ! 0),
                           tokens = [], errors = []\<rparr> = Inr lx \<and>
            errors lx = map char_error (filter (\<lambda>ic. invalid_char (snd ic)) (enumerate 0 ?s)))"
  proof
    assume ne: "?s \<noteq> []"
    then have init: "\<lparr>input_string = ?s, lpos = 0, current_char = Some (?s ! 0),
                      tokens = [], errors = []\<rparr> = lexer_at ?s 0 [] []"
      by (simp add: lexer_at_def)
    show "\<exists>lx. tokenize_loop \<lparr>input_string = ?s, lpos = 0, current_char = Some (?s ! 0),
                           tokens = [], errors = []\<rparr> = Inr lx \<and>
            errors lx = map char_error (filter (\<lambda>ic. invalid_char (snd ic)) (enumerate 0 ?s))"
      unfolding init by (simp add: tokenize_loop_lexer_at lexer_at_sel scan_errors_def)
  qed
  from c1 c2 c3 c4 show ?thesis by blast
qed

theorem tokenize_failures_witness:
  "tokenize ''  '' = Inl EmptyInputError \<and>
   tokenize '' 1 $ 2 # '' = Inl (char_error (2, CHR ''$'')) \<and>
   (\<exists>ts. tokenize ''3+4'' = Inr ts \<and> (\<forall>t \<in> set ts. ttype t \<noteq> INVALID))"
proof -
  have a: "length (strip ''  '') = 0" by code_simp
  have b: "strip '' 1 $ 2 # '' = ''1 $ 2 #''" by code_simp
  have b': "find (\<lambda>ic. invalid_char (snd ic)) (enumerate 0 ''1 $ 2 #'') = Some (2, CHR ''$'')"
    by code_simp
  have c: "strip ''3+4'' = ''3+4''" by code_simp
  have c': "find (\<lambda>ic. invalid_char (snd ic)) (enumerate 0 ''3+4'') = None"
    by code_simp
  have 1: "tokenize ''  '' = Inl EmptyInputError"
    using tokenize_failures [of "''  ''"] a by blast
  have 2: "tokenize '' 1 $ 2 # '' = Inl (char_error (2, CHR ''$''))"
    using tokenize_failures [of "'' 1 $ 2 # ''"] unfolding b b' by simp
  have 3: "\<exists>ts. tokenize ''3+4'' = Inr ts \<and> (\<forall>t \<in> set ts. ttype t \<noteq> INVALID)"
    using tokenize_failures [of "''3+4''"] unfolding c c' by simp
  from 1 2 3 show ?thesis by blast
qed

lemma char_kind_spec_kind:
  "\<not> invalid_char c \<Longrightarrow> \<not> isspace c \<Longrightarrow> char_kind c = spec_kind c"
  by (auto simp: invalid_char_def char_kind_def spec_kind_def)

text \<open>
  Claim C5.  When \<open>tokenize\<close> succeeds, the tokens are, in order, one for each
  character of the stripped input that is not whitespace: the token's text is that
  character, its position is the offset of the character in the stripped input, and its
  kind is \<open>PLUS\<close>, \<open>MULTIPLY\<close>, \<open>LPAREN\<close> or \<open>RPAREN\<close> for \<open>+ * ( )\<close> and \<open>ID\<close> for
  any other character, which is then alphanumeric.
\<close>

theorem tokenize_one_token_per_character:
  "tokenize input = Inr ts \<Longrightarrow>
   ts = map (\<lambda>ic. Token_init (spec_kind (snd ic)) [snd ic] (fst ic))
          (filter (\<lambda>ic. \<not> isspace (snd ic)) (enumerate 0 (strip input))) \<and>
   (\<forall>c \<in> set (strip input).
      isspace c \<or> c = CHR ''+'' \<or> c = CHR ''*'' \<or> c = CHR ''('' \<or> c = CHR '')'' \<or> isalnum c)"
proof -
  assume ok: "tokenize input = Inr ts"
  let ?s = "strip input"
  let ?xs = "filter (\<lambda>ic. \<not> isspace (snd ic)) (enumerate 0 ?s)"
  have e: "scan_errors 0 ?s = []" and t: "ts = scan_tokens 0 ?s"
    using ok by (auto simp: tokenize_scan split: if_splits list.splits)
  have v: "\<forall>c \<in> set ?s. \<not> invalid_char c"
    using e by (simp add: scan_errors_Nil)
  have "char_token ic = Token_init (spec_kind (snd ic)) [snd ic] (fst ic)"
    if "ic \<in> set ?xs" for ic
  proof -
    from that have "snd ic \<in> set ?s" "\<not> isspace (snd ic)"
      by (auto intro: enumerate_snd_mem)
    with v have "char_kind (snd ic) = spec_kind (snd ic)"
      by (simp add: char_kind_spec_kind)
    then show ?thesis by (simp add: char_token_def)
  qed
  then have "map char_token ?xs =
             map (\<lambda>ic. Token_init (spec_kind (snd ic)) [snd ic] (fst ic)) ?xs"
    by (intro map_cong refl)
  moreover have "\<forall>c \<in> set ?s.
      isspace c \<or> c = CHR ''+'' \<or> c = CHR ''*'' \<or> c = CHR ''('' \<or> c = CHR '')'' \<or> isalnum c"
    using v by (auto simp: invalid_char_def)
  ultimately show ?thesis
    using t by (simp add: scan_tokens_def)
qed

theorem tokenize_one_token_per_character_witness:
  "tokenize '' a+ (b) '' =
     Inr [Token_init ID ''a'' 0, Token_init PLUS ''+'' 1, Token_init LPAREN ''('' 3,
          Token_init ID ''b'' 4, Token_init RPAREN '')'' 5] \<and>
   [Token_init ID ''a'' 0, Token_init PLUS ''+'' 1, Token_init LPAREN ''('' 3,
    Token_init ID ''b'' 4, Token_init RPAREN '')'' 5] =
   map (\<lambda>ic. Token_init (spec_kind (snd ic)) [snd ic] (fst ic))
     (filter (\<lambda>ic. \<not> isspace (snd ic)) (enumerate 0 (strip '' a+ (b) '')))"
proof -
  have a: "tokenize '' a+ (b) '' =
     Inr [Token_init ID ''a'' 0, Token_init PLUS ''+'' 1, Token_init LPAREN ''('' 3,
          Token_init ID ''b'' 4, Token_init RPAREN '')'' 5]"
    by code_simp
  from tokenize_one_token_per_character [OF a] a show ?thesis by blast
qed

subsection \<open>The loops of the semantic analysis\<close>

lemma check_consecutive_find:
  "check_consecutive ts =
     (case find adjacent_operators (zip ts (tl ts)) of
        None \<Rightarrow> Inr ()
      | Some ab \<Rightarrow> Inl (consecutive_error ab))"
  by (induction ts rule: check_consecutive.induct)
     (simp_all add: adjacent_operators_def consecutive_error_def)

lemma running_count_Cons:
  "running_count (t # ts) (Suc k) = paren_delta t + running_count ts k"
  by (simp add: running_count_def)

lemma running_count_0: "running_count ts 0 = 0"
  by (simp add: running_count_def)

lemma find_map_option: "find P (map f xs) = map_option f (find (\<lambda>x. P (f x)) xs)"
  by (induction xs) simp_all

lemma find_upt_Suc:
  "find P [0..<Suc n] = (if P 0 then Some 0 else map_option Suc (find (\<lambda>k. P (Suc k)) [0..<n]))"
proof -
  have "[0..<Suc n] = 0 # map Suc [0..<n]"
    by (simp add: upt_conv_Cons map_Suc_upt del: upt_Suc)
  then show ?thesis
    by (simp add: find_map_option del: upt_Suc)
qed

lemma check_parens_find:
  "0 \<le> n \<Longrightarrow>
   check_parens ts n =
     (case find (\<lambda>k. n + running_count ts (Suc k) < 0) [0..<length ts] of
        Some k \<Rightarrow> Inl (SemanticError ''Unmatched closing parenthesis''
                         (Some (position (ts ! k))) (Some (ts ! k)) ''parentheses balance'')
      | None \<Rightarrow> Inr (n + running_count ts (length ts)))"
proof (induction ts arbitrary: n)
  case Nil
  then show ?case by (simp add: running_count_def)
next
  case (Cons t ts)
  have rc0: "running_count (t # ts) (Suc 0) = paren_delta t"
    by (simp add: running_count_def)
  show ?case
  proof (cases "ttype t = RPAREN \<and> n - 1 < 0")
    case True
    then show ?thesis
      by (simp add: find_upt_Suc running_count_0 running_count_Cons paren_delta_def del: upt_Suc)
  next
    case False
    then have nn: "0 \<le> n + paren_delta t"
      using Cons.prems by (auto simp: paren_delta_def)
    have step: "check_parens (t # ts) n = check_parens ts (n + paren_delta t)"
      using False by (auto simp: paren_delta_def)
    show ?thesis
      unfolding step Cons.IH [OF nn]
      using nn
      by (simp add: find_upt_Suc running_count_0 running_count_Cons add.assoc del: upt_Suc
               split: option.splits)
  qed
qed

lemma perform_semantic_analysis_spec:
  "ts \<noteq> [] \<Longrightarrow>
   perform_semantic_analysis ts = (case spec_pre_checks ts of None \<Rightarrow> Inr () | Some e \<Rightarrow> Inl e)"
  using check_parens_find [of 0 ts]
  by (simp add: perform_semantic_analysis_def spec_pre_checks_def check_consecutive_find
           hd_conv_nth split: option.splits)

lemma list_ex_find: "list_ex P xs \<Longrightarrow> \<exists>x. find P xs = Some x \<and> P x"
  by (induction xs) auto

text \<open>
  Claim C4.  \<open>parse\<close> reports the first violated rule in the order: empty sequence,
  consecutive operators anywhere, operator first, operator last, parenthesis balance.
  In the balance pass the closing parenthesis at which the running count first becomes
  negative is reported, and otherwise a positive count after the last token.  A sequence
  that starts with an operator and has consecutive operators gets the
  consecutive-operators error, and the single token \<open>)\<close> gets the unmatched-closing
  error.
\<close>

theorem semantic_pre_checks_order:
  "(\<forall>e. spec_pre_checks ts = Some e \<longrightarrow> parse d ts = Some (Inl e)) \<and>
   (spec_pre_checks ts = None \<longrightarrow> ts \<noteq> [] \<and> perform_semantic_analysis ts = Inr ()) \<and>
   (ts \<noteq> [] \<and> is_operator (hd ts) \<and> list_ex adjacent_operators (zip ts (tl ts)) \<longrightarrow>
      (\<exists>m p t. parse d ts = Some (Inl (SemanticError m p t ''operator sequence'')))) \<and>
   (ttype t = RPAREN \<longrightarrow>
      parse d [t] = Some (Inl (SemanticError ''Unmatched closing parenthesis''
                                 (Some (position t)) (Some t) ''parentheses balance'')))"
proof -
  have fail: "parse d xs = Some (Inl e)" if "spec_pre_checks xs = Some e" for xs e
  proof (cases "xs = []")
    case True
    with that show ?thesis by (simp add: spec_pre_checks_def parse_def)
  next
    case False
    with that show ?thesis
      by (simp add: parse_def perform_semantic_analysis_spec)
  qed
  have pass: "ts \<noteq> [] \<and> perform_semantic_analysis ts = Inr ()" if "spec_pre_checks ts = None"
  proof -
    from that have "ts \<noteq> []" by (auto simp: spec_pre_checks_def)
    with that show ?thesis by (simp add: perform_semantic_analysis_spec)
  qed
  have both: "\<exists>m p t. parse d ts = Some (Inl (SemanticError m p t ''operator sequence''))"
    if "ts \<noteq> []" "list_ex adjacent_operators (zip ts (tl ts))"
  proof -
    from that(2) obtain ab where "find adjacent_operators (zip ts (tl ts)) = Some ab"
      using list_ex_find by blast
    with that(1) have "spec_pre_checks ts = Some (consecutive_error ab)"
      by (simp add: spec_pre_checks_def)
    then have "parse d ts = Some (Inl (consecutive_error ab))" by (rule fail)
    then show ?thesis by (auto simp: consecutive_error_def)
  qed
  have closing: "parse d [t] = Some (Inl (SemanticError ''Unmatched closing parenthesis''
                                 (Some (position t)) (Some t) ''parentheses balance''))"
    if "ttype t = RPAREN"
  proof -
    from that have "spec_pre_checks [t] =
        Some (SemanticError ''Unmatched closing parenthesis''
                (Some (position t)) (Some t) ''parentheses balance'')"
      by (simp add: spec_pre_checks_def is_operator_def running_count_def paren_delta_def)
    then show ?thesis by (rule fail)
  qed
  from fail pass both closing show ?thesis by blast
qed

theorem semantic_pre_checks_order_witness:
  "parse 0 [] = Some (Inl (UnexpectedEndOfInputError ''expression'')) \<and>
   parse 0 [Token_init RPAREN '')'' 0] =
     Some (Inl (SemanticError ''Unmatched closing parenthesis'' (Some 0)
                  (Some (Token_init RPAREN '')'' 0)) ''parentheses balance'')) \<and>
   (\<exists>m p t. parse 0 [Token_init PLUS ''+'' 0, Token_init MULTIPLY ''*'' 1, Token_init ID ''3'' 2] =
       Some (Inl (SemanticError m p t ''operator sequence''))) \<and>
   parse 0 [Token_init LPAREN ''('' 0, Token_init ID ''1'' 1] =
     Some (Inl (SemanticError ''1 unmatched opening parenthesis(es)'' None None
                  ''parentheses balance'')) \<and>
   perform_semantic_analysis [Token_init ID ''1'' 0, Token_init PLUS ''+'' 1, Token_init ID ''2'' 2]
     = Inr ()"
proof -
  let ?a = "[Token_init RPAREN '')'' 0]"
  let ?b = "[Token_init PLUS ''+'' 0, Token_init MULTIPLY ''*'' 1, Token_init ID ''3'' 2]"
  let ?c = "[Token_init LPAREN ''('' 0, Token_init ID ''1'' 1]"
  let ?d = "[Token_init ID ''1'' 0, Token_init PLUS ''+'' 1, Token_init ID ''2'' 2]"
  have e: "spec_pre_checks [] = Some (UnexpectedEndOfInputError ''expression'')"
    by (simp add: spec_pre_checks_def)
  have a: "ttype (Token_init RPAREN '')'' 0) = RPAREN" "position (Token_init RPAREN '')'' 0) = 0"
    by (simp_all add: Token_init_def)
  have b: "?b \<noteq> [] \<and> is_operator (hd ?b) \<and> list_ex adjacent_operators (zip ?b (tl ?b))"
    by (simp add: is_operator_def adjacent_operators_def Token_init_def)
  have c: "spec_pre_checks ?c = Some (SemanticError ''1 unmatched opening parenthesis(es)'' None None
                  ''parentheses balance'')"
    by code_simp
  have d: "spec_pre_checks ?d = None"
    by code_simp
  show ?thesis
    using semantic_pre_checks_order [of "[]" 0 "Token_init RPAREN '')'' 0"]
      semantic_pre_checks_order [of ?b 0] semantic_pre_checks_order [of ?c 0]
      semantic_pre_checks_order [of ?d 0] a b c d e
    by simp
qed


section \<open>The parser builds derivations\<close>

lemma parse_E_Suc:
  "parse_E (Suc d) ts i =
     (case parse_T d ts i of
        None \<Rightarrow> None
      | Some (Inl e) \<Rightarrow> Some (Inl e)
      | Some (Inr (t_node, j)) \<Rightarrow>
          (case parse_E_prime d ts j of
             None \<Rightarrow> None
           | Some (Inl e) \<Rightarrow> Some (Inl e)
           | Some (Inr (e_prime_node, k)) \<Rightarrow>
               Some (Inr (ParseTreeNode ''E'' [t_node, e_prime_node] None None, k))))"
  by simp

lemma parse_T_Suc:
  "parse_T (Suc d) ts i =
     (case parse_F d ts i of
        None \<Rightarrow> None
      | Some (Inl e) \<Rightarrow> Some (Inl e)
      | Some (Inr (f_node, j)) \<Rightarrow>
          (case parse_T_prime d ts j of
             None \<Rightarrow> None
           | Some (Inl e) \<Rightarrow> Some (Inl e)
           | Some (Inr (t_prime_node, k)) \<Rightarrow>
               Some (Inr (ParseTreeNode ''T'' [f_node, t_prime_node] None None, k))))"
  by simp

lemma parse_E_prime_Suc:
  "parse_E_prime (Suc d) ts i =
     (if looking_at ts i PLUS then
        (case parse_T d ts (Suc i) of
           None \<Rightarrow> None
         | Some (Inl e) \<Rightarrow> Some (Inl e)
         | Some (Inr (t_node, k)) \<Rightarrow>
             (case parse_E_prime d ts k of
                None \<Rightarrow> None
              | Some (Inl e) \<Rightarrow> Some (Inl e)
              | Some (Inr (e_prime_node, l)) \<Rightarrow>
                  Some (Inr (ParseTreeNode E_prime [leaf ''+'' (ts ! i), t_node, e_prime_node]
                               None None, l))))
      else Some (Inr (ParseTreeNode E_prime [] None None, i)))"
  by (auto simp: looking_at_def current_token_def consume_token_def E_prime_def leaf_def
        split: option.splits sum.splits)

lemma parse_T_prime_Suc:
  "parse_T_prime (Suc d) ts i =
     (if looking_at ts i MULTIPLY then
        (case parse_F d ts (Suc i) of
           None \<Rightarrow> None
         | Some (Inl e) \<Rightarrow> Some (Inl e)
         | Some (Inr (f_node, k)) \<Rightarrow>
             (case parse_T_prime d ts k of
                None \<Rightarrow> None
              | Some (Inl e) \<Rightarrow> Some (Inl e)
              | Some (Inr (t_prime_node, l)) \<Rightarrow>
                  Some (Inr (ParseTreeNode T_prime [leaf ''*'' (ts ! i), f_node, t_prime_node]
                               None None, l))))
      else Some (Inr (ParseTreeNode T_prime [] None None, i)))"
  by (auto simp: looking_at_def current_token_def consume_token_def T_prime_def leaf_def
        split: option.splits sum.splits)

lemma parse_F_Suc:
  "parse_F (Suc d) ts i =
     (if looking_at ts i LPAREN then
        (case parse_E d ts (Suc i) of
           None \<Rightarrow> None
         | Some (Inl e) \<Rightarrow> Some (Inl e)
         | Some (Inr (e_node, k)) \<Rightarrow>
             if looking_at ts k RPAREN
             then Some (Inr (ParseTreeNode ''F''
                               [leaf ''('' (ts ! i), e_node, leaf '')'' (ts ! k)] None None, Suc k))
             else Some (Inl (mismatch ts k RPAREN)))
      else if looking_at ts i ID
      then Some (Inr (ParseTreeNode ''F'' [leaf ''id'' (ts ! i)] None None, Suc i))
      else Some (Inl (no_factor ts i)))"
  by (auto simp: looking_at_def current_token_def consume_token_def leaf_def mismatch_def
        no_factor_def split: option.splits sum.splits)

lemmas parse_Suc = parse_E_Suc parse_E_prime_Suc parse_T_Suc parse_T_prime_Suc parse_F_Suc

declare parse_E.simps(2) [simp del] parse_E_prime.simps(2) [simp del] parse_T.simps(2) [simp del]
  parse_T_prime.simps(2) [simp del] parse_F.simps(2) [simp del]

lemma parse_derives:
  "(\<forall>ts i n j. parse_E d ts i = Some (Inr (n, j)) \<longrightarrow> derives_E ts i n j) \<and>
   (\<forall>ts i n j. parse_E_prime d ts i = Some (Inr (n, j)) \<longrightarrow> derives_E_prime ts i n j) \<and>
   (\<forall>ts i n j. parse_T d ts i = Some (Inr (n, j)) \<longrightarrow> derives_T ts i n j) \<and>
   (\<forall>ts i n j. parse_T_prime d ts i = Some (Inr (n, j)) \<longrightarrow> derives_T_prime ts i n j) \<and>
   (\<forall>ts i n j. parse_F d ts i = Some (Inr (n, j)) \<longrightarrow> derives_F ts i n j)"
proof (induction d)
  case 0
  show ?case by simp
next
  case (Suc d)
  then have E: "\<And>ts i n j. parse_E d ts i = Some (Inr (n, j)) \<Longrightarrow> derives_E ts i n j"
    and E': "\<And>ts i n j. parse_E_prime d ts i = Some (Inr (n, j)) \<Longrightarrow> derives_E_prime ts i n j"
    and T: "\<And>ts i n j. parse_T d ts i = Some (Inr (n, j)) \<Longrightarrow> derives_T ts i n j"
    and T': "\<And>ts i n j. parse_T_prime d ts i = Some (Inr (n, j)) \<Longrightarrow> derives_T_prime ts i n j"
    and F: "\<And>ts i n j. parse_F d ts i = Some (Inr (n, j)) \<Longrightarrow> derives_F ts i n j"
    by blast+
  have 1: "derives_E ts i n j" if "parse_E (Suc d) ts i = Some (Inr (n, j))" for ts i n j
    using that
    by (auto simp: parse_E_Suc split: option.splits sum.splits prod.splits
          intro!: derives_E_derives_E_prime_derives_T_derives_T_prime_derives_F.E dest: T E')
  have 2: "derives_E_prime ts i n j" if "parse_E_prime (Suc d) ts i = Some (Inr (n, j))"
    for ts i n j
    using that
    by (auto simp: parse_E_prime_Suc split: option.splits sum.splits prod.splits if_splits
          intro: E_plus E_eps dest: T E')
  have 3: "derives_T ts i n j" if "parse_T (Suc d) ts i = Some (Inr (n, j))" for ts i n j
    using that
    by (auto simp: parse_T_Suc split: option.splits sum.splits prod.splits
          intro!: derives_E_derives_E_prime_derives_T_derives_T_prime_derives_F.T dest: F T')
  have 4: "derives_T_prime ts i n j" if "parse_T_prime (Suc d) ts i = Some (Inr (n, j))"
    for ts i n j
    using that
    by (auto simp: parse_T_prime_Suc split: option.splits sum.splits prod.splits if_splits
          intro: T_times T_eps dest: F T')
  have 5: "derives_F ts i n j" if "parse_F (Suc d) ts i = Some (Inr (n, j))" for ts i n j
    using that
    by (auto simp: parse_F_Suc split: option.splits sum.splits prod.splits if_splits
          intro: F_paren F_id dest: E)
  from 1 2 3 4 5 show ?case by blast
qed

lemmas derives_inducts = derives_E_derives_E_prime_derives_T_derives_T_prime_derives_F.inducts

lemma derives_index:
  "derives_E ts i n j \<Longrightarrow> i < j \<and> j \<le> length ts"
  "derives_E_prime ts i n j \<Longrightarrow> i \<le> j \<and> (i \<le> length ts \<longrightarrow> j \<le> length ts)"
  "derives_T ts i n j \<Longrightarrow> i < j \<and> j \<le> length ts"
  "derives_T_prime ts i n j \<Longrightarrow> i \<le> j \<and> (i \<le> length ts \<longrightarrow> j \<le> length ts)"
  "derives_F ts i n j \<Longrightarrow> i < j \<and> j \<le> length ts"
  by (induction rule: derives_inducts) (auto simp: looking_at_def)

lemma slice_same: "slice xs i i = []"
  by (simp add: slice_def)

lemma slice_Suc: "i < length xs \<Longrightarrow> slice xs i (Suc i) = [xs ! i]"
  by (simp add: slice_def take_Suc_conv_app_nth [of 0])

lemma slice_append: "i \<le> j \<Longrightarrow> j \<le> k \<Longrightarrow> slice xs i j @ slice xs j k = slice xs i k"
proof -
  assume a: "i \<le> j" "j \<le> k"
  have "take (j - i) (drop i xs) @ take (k - j) (drop (j - i) (drop i xs)) =
        take ((j - i) + (k - j)) (drop i xs)"
    by (simp add: take_add)
  then show ?thesis using a by (simp add: slice_def)
qed

lemma derives_leaves:
  "derives_E ts i n j \<Longrightarrow> terminal_leaves n = slice ts i j"
  "derives_E_prime ts i n j \<Longrightarrow> terminal_leaves n = slice ts i j"
  "derives_T ts i n j \<Longrightarrow> terminal_leaves n = slice ts i j"
  "derives_T_prime ts i n j \<Longrightarrow> terminal_leaves n = slice ts i j"
  "derives_F ts i n j \<Longrightarrow> terminal_leaves n = slice ts i j"
proof (induction rule: derives_inducts)
  case (E ts i t j e k)
  then show ?case
    using derives_index(3) [of ts i t j] derives_index(2) [of ts j e k]
    by (simp add: slice_append)
next
  case (E_plus ts i t k e l)
  then show ?case
    using derives_index(3) [of ts "Suc i" t k] derives_index(2) [of ts k e l]
      slice_append [of i "Suc i" l ts] slice_append [of "Suc i" k l ts]
    by (simp add: slice_Suc looking_at_def leaf_def)
next
  case (E_eps ts i)
  then show ?case by (simp add: slice_same)
next
  case (T ts i f j t k)
  then show ?case
    using derives_index(5) [of ts i f j] derives_index(4) [of ts j t k]
    by (simp add: slice_append)
next
  case (T_times ts i f k t l)
  then show ?case
    using derives_index(5) [of ts "Suc i" f k] derives_index(4) [of ts k t l]
      slice_append [of i "Suc i" l ts] slice_append [of "Suc i" k l ts]
    by (simp add: slice_Suc looking_at_def leaf_def)
next
  case (T_eps ts i)
  then show ?case by (simp add: slice_same)
next
  case (F_paren ts i e k)
  then show ?case
    using derives_index(1) [of ts "Suc i" e k]
      slice_append [of i "Suc i" "Suc k" ts] slice_append [of "Suc i" k "Suc k" ts]
    by (simp add: slice_Suc looking_at_def leaf_def)
next
  case (F_id ts i)
  then show ?case by (simp add: slice_Suc looking_at_def leaf_def)
qed

lemma parse_E_derives: "parse_E d ts i = Some (Inr (n, j)) \<Longrightarrow> derives_E ts i n j"
  using parse_derives [of d] by blast

lemma derive_derives:
  assumes "derive d ts = Some (Inr root)"
  shows "derives_E ts 0 root (length ts)"
proof -
  from assms obtain i where p: "parse_E d ts 0 = Some (Inr (root, i))" and i: "\<not> i < length ts"
    by (auto simp: derive_def split: option.splits sum.splits prod.splits if_splits)
  from parse_E_derives [OF p] have d: "derives_E ts 0 root i" .
  from derives_index(1) [OF d] i have "i = length ts" by simp
  with d show ?thesis by simp
qed

lemma parse_success:
  assumes "parse d ts = Some (Inr (root, v))"
  shows "\<exists>r0. derive d ts = Some (Inr r0) \<and> evaluate r0 = (root, Inr v) \<and>
           ts \<noteq> [] \<and> perform_semantic_analysis ts = Inr ()"
  using assms
  by (auto simp: parse_def split: option.splits sum.splits prod.splits if_splits)



section \<open>Evaluation\<close>

lemma list_shape4:
  obtains "cs = []" | c0 where "cs = [c0]" | c0 c1 where "cs = [c0, c1]"
  | c0 c1 c2 rest where "cs = c0 # c1 # c2 # rest"
proof (cases cs)
  case Nil
  then show ?thesis using that by simp
next
  case (Cons c0 l)
  note c0 = this
  show ?thesis
  proof (cases l)
    case Nil
    then show ?thesis using that c0 by simp
  next
    case (Cons c1 m)
    then show ?thesis using that c0 by (cases m) simp_all
  qed
qed

lemma evaluate_plan:
  "evaluate (ParseTreeNode r cs tok v) =
     (if is_id_token tok then evaluate_id r tok v cs
      else run_plan r tok v cs (evaluation_plan r cs))"
proof (cases "is_id_token tok")
  case True
  then show ?thesis by (simp add: evaluate_id_def)
next
  case False
  show ?thesis
  proof (cases cs rule: list_shape4)
    case 1
    then show ?thesis using False by (simp add: evaluation_plan_def)
  next
    case (2 c0)
    then show ?thesis using False
      by (simp add: evaluation_plan_def split: prod.splits sum.splits)
  next
    case (3 c0 c1)
    then show ?thesis using False
      by (simp add: evaluation_plan_def split: prod.splits sum.splits)
  next
    case (4 c0 c1 c2 rest)
    then show ?thesis using False
      by (simp add: evaluation_plan_def split: prod.splits sum.splits)
  qed
qed

declare evaluate.simps [simp del]

lemma plan_children:
  "evaluation_plan r cs = Unary pre c post \<Longrightarrow> cs = pre @ c # post"
  "evaluation_plan r cs = Binary pre ca cb post op \<Longrightarrow> cs = pre @ ca # cb # post"
  by (cases cs rule: list_shape4; simp add: evaluation_plan_def split: if_splits; blast)+

lemma plan_update:
  "evaluation_plan r cs = Unary pre c post \<Longrightarrow>
   evaluation_plan r (pre @ c' # post) = Unary pre c' post"
  "evaluation_plan r cs = Binary pre ca cb post op \<Longrightarrow>
   evaluation_plan r (pre @ ca' # cb' # post) = Binary pre ca' cb' post op"
  by (cases cs rule: list_shape4; auto simp: evaluation_plan_def split: if_splits)+

lemma unary_again:
  assumes "evaluate (fst (evaluate c)) = evaluate c"
    and "run_plan r tok v cs (Unary pre c post) = (n', res)"
  shows "\<exists>c' v'. n' = ParseTreeNode r (pre @ c' # post) tok v' \<and>
           run_plan r tok v' (pre @ c' # post) (Unary pre c' post) = (n', res)"
proof -
  obtain c' x where c: "evaluate c = (c', x)" by (cases "evaluate c")
  with assms(1) have c': "evaluate c' = (c', x)" by simp
  show ?thesis using assms(2) c c' by (cases x) auto
qed

lemma binary_again:
  assumes "evaluate (fst (evaluate ca)) = evaluate ca"
    and "evaluate (fst (evaluate cb)) = evaluate cb"
    and "run_plan r tok v cs (Binary pre ca cb post op) = (n', res)"
  shows "\<exists>ca' cb' v'. n' = ParseTreeNode r (pre @ ca' # cb' # post) tok v' \<and>
           run_plan r tok v' (pre @ ca' # cb' # post) (Binary pre ca' cb' post op) = (n', res)"
proof -
  obtain ca' x where a: "evaluate ca = (ca', x)" by (cases "evaluate ca")
  with assms(1) have a': "evaluate ca' = (ca', x)" by simp
  obtain cb' y where b: "evaluate cb = (cb', y)" by (cases "evaluate cb")
  with assms(2) have b': "evaluate cb' = (cb', y)" by simp
  show ?thesis
  proof (cases x)
    case (Inl e)
    then show ?thesis using assms(3) a a' by auto
  next
    case (Inr p)
    note x = this
    show ?thesis
    proof (cases y)
      case (Inl e)
      then show ?thesis using assms(3) a a' b b' x by auto
    next
      case (Inr q)
      then show ?thesis using assms(3) a a' b b' x
        by (cases "apply_arith op p q") (auto split: sum.splits)
    qed
  qed
qed

lemma evaluate_again: "evaluate (fst (evaluate n)) = evaluate n"
proof (induction n)
  case (ParseTreeNode r cs tok v)
  let ?n = "ParseTreeNode r cs tok v"
  show ?case
  proof (cases "is_id_token tok")
    case True
    then show ?thesis
      by (simp add: evaluate_plan evaluate_id_def split: option.splits)
  next
    case False
    then have ev: "evaluate (ParseTreeNode r xs tok x) =
                     run_plan r tok x xs (evaluation_plan r xs)" for xs x
      by (simp add: evaluate_plan)
    show ?thesis
    proof (cases "evaluation_plan r cs")
      case Keep
      then show ?thesis by (simp add: ev)
    next
      case (Const k)
      then show ?thesis by (simp add: ev)
    next
      case (Unary pre c post)
      then have "c \<in> set cs" using plan_children(1) by fastforce
      then have ih: "evaluate (fst (evaluate c)) = evaluate c"
        by (rule ParseTreeNode.IH)
      obtain n' res where run: "run_plan r tok v cs (Unary pre c post) = (n', res)"
        by (cases "run_plan r tok v cs (Unary pre c post)")
      from unary_again [OF ih run] obtain c' v' where
        n': "n' = ParseTreeNode r (pre @ c' # post) tok v'" and
        again: "run_plan r tok v' (pre @ c' # post) (Unary pre c' post) = (n', res)"
        by blast
      have "evaluate ?n = (n', res)" using Unary run by (simp add: ev)
      moreover have "evaluate n' = (n', res)"
        unfolding n' ev plan_update(1) [OF Unary] using again n' by simp
      ultimately show ?thesis by simp
    next
      case (Binary pre ca cb post op)
      then have "ca \<in> set cs" "cb \<in> set cs" using plan_children(2) by fastforce+
      then have ih: "evaluate (fst (evaluate ca)) = evaluate ca"
          "evaluate (fst (evaluate cb)) = evaluate cb"
        by (auto intro: ParseTreeNode.IH)
      obtain n' res where run: "run_plan r tok v cs (Binary pre ca cb post op) = (n', res)"
        by (cases "run_plan r tok v cs (Binary pre ca cb post op)")
      from binary_again [OF ih run] obtain ca' cb' v' where
        n': "n' = ParseTreeNode r (pre @ ca' # cb' # post) tok v'" and
        again: "run_plan r tok v' (pre @ ca' # cb' # post) (Binary pre ca' cb' post op) =
                  (n', res)"
        by blast
      have "evaluate ?n = (n', res)" using Binary run by (simp add: ev)
      moreover have "evaluate n' = (n', res)"
        unfolding n' ev plan_update(2) [OF Binary] using again n' by simp
      ultimately show ?thesis by simp
    qed
  qed
qed

lemma is_id_token_simps [simp]:
  "is_id_token None = False" "is_id_token (Some t) = (ttype t = ID)"
  by (simp_all add: is_id_token_def)

lemma evaluate_E:
  "evaluate (ParseTreeNode ''E'' [t, e] None None) =
   run_plan ''E'' None None [t, e] (Binary [] t e [] Add)"
  by (simp add: evaluate_plan evaluation_plan_def)

lemma evaluate_E_plus:
  "evaluate (ParseTreeNode E_prime [p, t, e] None None) =
   run_plan E_prime None None [p, t, e] (Binary [p] t e [] Add)"
  by (simp add: evaluate_plan evaluation_plan_def E_prime_def)

lemma evaluate_E_eps:
  "evaluate (ParseTreeNode E_prime [] None None) =
   (ParseTreeNode E_prime [] None (Some 0), Inr (Some 0))"
  by (simp add: evaluate_plan evaluation_plan_def E_prime_def)

lemma evaluate_T:
  "evaluate (ParseTreeNode ''T'' [f, t] None None) =
   run_plan ''T'' None None [f, t] (Binary [] f t [] MulUnlessOne)"
  by (simp add: evaluate_plan evaluation_plan_def)

lemma evaluate_T_times:
  "evaluate (ParseTreeNode T_prime [m, f, t] None None) =
   run_plan T_prime None None [m, f, t] (Binary [m] f t [] Mul)"
  by (simp add: evaluate_plan evaluation_plan_def T_prime_def)

lemma evaluate_T_eps:
  "evaluate (ParseTreeNode T_prime [] None None) =
   (ParseTreeNode T_prime [] None (Some 1), Inr (Some 1))"
  by (simp add: evaluate_plan evaluation_plan_def T_prime_def)

lemma evaluate_F_paren:
  "evaluate (ParseTreeNode ''F'' [l, e, rp] None None) =
   run_plan ''F'' None None [l, e, rp] (Unary [l] e [rp])"
  by (simp add: evaluate_plan evaluation_plan_def)

lemma evaluate_F_id:
  "evaluate (ParseTreeNode ''F'' [i] None None) =
   run_plan ''F'' None None [i] (Unary [] i [])"
  by (simp add: evaluate_plan evaluation_plan_def)

lemma evaluate_id_leaf:
  "ttype t = ID \<Longrightarrow> evaluate (leaf ''id'' t) = evaluate_id ''id'' (Some t) None []"
  by (simp add: evaluate_plan leaf_def)

lemma well_evaluated_leaf:
  "r = ''+'' \<or> r = ''*'' \<or> r = ''('' \<or> r = '')'' \<Longrightarrow> well_evaluated (leaf r t)"
  by (auto simp: leaf_def E_prime_def T_prime_def)

lemma evaluates_wellD:
  "evaluates_well rn n \<Longrightarrow> evaluate n = (n', Inr x) \<Longrightarrow>
   well_evaluated n' \<and> node_value n' = x \<and> (\<exists>a. x = Some a) \<and> rule n' = rn"
  by (auto simp: evaluates_well_def)

lemma run_binary_ok:
  "run_plan r tok v cs (Binary pre ca cb post op) = (n', Inr x) \<Longrightarrow>
   \<exists>ca' a cb' b. evaluate ca = (ca', Inr a) \<and> evaluate cb = (cb', Inr b) \<and>
      apply_arith op a b = Inr x \<and> n' = ParseTreeNode r (pre @ ca' # cb' # post) tok x"
  by (auto split: prod.splits sum.splits)

lemma run_unary_ok:
  "run_plan r tok v cs (Unary pre c post) = (n', Inr x) \<Longrightarrow>
   \<exists>c'. evaluate c = (c', Inr x) \<and> n' = ParseTreeNode r (pre @ c' # post) tok x"
  by (auto split: prod.splits sum.splits)

lemma derives_evaluates_well:
  "derives_E ts i n j \<Longrightarrow> evaluates_well ''E'' n"
  "derives_E_prime ts i n j \<Longrightarrow> evaluates_well E_prime n"
  "derives_T ts i n j \<Longrightarrow> evaluates_well ''T'' n"
  "derives_T_prime ts i n j \<Longrightarrow> evaluates_well T_prime n"
  "derives_F ts i n j \<Longrightarrow> evaluates_well ''F'' n"
proof (induction rule: derives_inducts)
  case (E ts i t j e k)
  show ?case
    unfolding evaluates_well_def evaluate_E
  proof (intro allI impI)
    fix n' x
    assume "run_plan ''E'' None None [t, e] (Binary [] t e [] Add) = (n', Inr x)"
    from run_binary_ok [OF this] obtain t' a e' b where
      ev: "evaluate t = (t', Inr a)" "evaluate e = (e', Inr b)" and
      ar: "apply_arith Add a b = Inr x" and n': "n' = ParseTreeNode ''E'' [t', e'] None x"
      by auto
    from evaluates_wellD [OF E.IH(1) ev(1)] evaluates_wellD [OF E.IH(2) ev(2)] ar n'
    show "well_evaluated n' \<and> node_value n' = x \<and> x \<noteq> None \<and> rule n' = ''E''"
      by (auto simp: plus_values_def E_prime_def)
  qed
next
  case (E_plus ts i t k e l)
  show ?case
    unfolding evaluates_well_def evaluate_E_plus
  proof (intro allI impI)
    fix n' x
    assume "run_plan E_prime None None [leaf ''+'' (ts ! i), t, e]
              (Binary [leaf ''+'' (ts ! i)] t e [] Add) = (n', Inr x)"
    from run_binary_ok [OF this] obtain t' a e' b where
      ev: "evaluate t = (t', Inr a)" "evaluate e = (e', Inr b)" and
      ar: "apply_arith Add a b = Inr x" and
      n': "n' = ParseTreeNode E_prime [leaf ''+'' (ts ! i), t', e'] None x"
      by auto
    from evaluates_wellD [OF E_plus.IH(1) ev(1)] evaluates_wellD [OF E_plus.IH(2) ev(2)] ar n'
      well_evaluated_leaf [of "''+''" "ts ! i"]
    show "well_evaluated n' \<and> node_value n' = x \<and> x \<noteq> None \<and> rule n' = E_prime"
      by (auto simp: plus_values_def E_prime_def leaf_def)
  qed
next
  case (E_eps ts i)
  show ?case
    unfolding evaluates_well_def evaluate_E_eps
    by (auto simp: E_prime_def)
next
  case (T ts i f j t k)
  show ?case
    unfolding evaluates_well_def evaluate_T
  proof (intro allI impI)
    fix n' x
    assume "run_plan ''T'' None None [f, t] (Binary [] f t [] MulUnlessOne) = (n', Inr x)"
    from run_binary_ok [OF this] obtain f' a t' b where
      ev: "evaluate f = (f', Inr a)" "evaluate t = (t', Inr b)" and
      ar: "apply_arith MulUnlessOne a b = Inr x" and
      n': "n' = ParseTreeNode ''T'' [f', t'] None x"
      by auto
    from evaluates_wellD [OF T.IH(1) ev(1)] evaluates_wellD [OF T.IH(2) ev(2)] ar n'
    show "well_evaluated n' \<and> node_value n' = x \<and> x \<noteq> None \<and> rule n' = ''T''"
      by (auto simp: times_values_def E_prime_def T_prime_def split: if_splits)
  qed
next
  case (T_times ts i f k t l)
  show ?case
    unfolding evaluates_well_def evaluate_T_times
  proof (intro allI impI)
    fix n' x
    assume "run_plan T_prime None None [leaf ''*'' (ts ! i), f, t]
              (Binary [leaf ''*'' (ts ! i)] f t [] Mul) = (n', Inr x)"
    from run_binary_ok [OF this] obtain f' a t' b where
      ev: "evaluate f = (f', Inr a)" "evaluate t = (t', Inr b)" and
      ar: "apply_arith Mul a b = Inr x" and
      n': "n' = ParseTreeNode T_prime [leaf ''*'' (ts ! i), f', t'] None x"
      by auto
    from evaluates_wellD [OF T_times.IH(1) ev(1)] evaluates_wellD [OF T_times.IH(2) ev(2)] ar n'
      well_evaluated_leaf [of "''*''" "ts ! i"]
    show "well_evaluated n' \<and> node_value n' = x \<and> x \<noteq> None \<and> rule n' = T_prime"
      by (auto simp: times_values_def E_prime_def T_prime_def leaf_def)
  qed
next
  case (T_eps ts i)
  show ?case
    unfolding evaluates_well_def evaluate_T_eps
    by (auto simp: E_prime_def T_prime_def)
next
  case (F_paren ts i e k)
  show ?case
    unfolding evaluates_well_def evaluate_F_paren
  proof (intro allI impI)
    fix n' x
    assume "run_plan ''F'' None None [leaf ''('' (ts ! i), e, leaf '')'' (ts ! k)]
              (Unary [leaf ''('' (ts ! i)] e [leaf '')'' (ts ! k)]) = (n', Inr x)"
    from run_unary_ok [OF this] obtain e' where
      ev: "evaluate e = (e', Inr x)" and
      n': "n' = ParseTreeNode ''F'' [leaf ''('' (ts ! i), e', leaf '')'' (ts ! k)] None x"
      by auto
    from evaluates_wellD [OF F_paren.IH ev] n'
      well_evaluated_leaf [of "''(''" "ts ! i"] well_evaluated_leaf [of "'')''" "ts ! k"]
    show "well_evaluated n' \<and> node_value n' = x \<and> x \<noteq> None \<and> rule n' = ''F''"
      by (auto simp: E_prime_def T_prime_def leaf_def)
  qed
next
  case (F_id ts i)
  then have ty: "ttype (ts ! i) = ID" by (simp add: looking_at_def)
  show ?case
    unfolding evaluates_well_def evaluate_F_id
  proof (intro allI impI)
    fix n' x
    assume "run_plan ''F'' None None [leaf ''id'' (ts ! i)] (Unary [] (leaf ''id'' (ts ! i)) [])
              = (n', Inr x)"
    from run_unary_ok [OF this] obtain c' where
      ev: "evaluate (leaf ''id'' (ts ! i)) = (c', Inr x)" and
      n': "n' = ParseTreeNode ''F'' [c'] None x"
      by auto
    from ev have "well_evaluated c' \<and> node_value c' = x \<and> x \<noteq> None \<and> rule c' = ''id''"
      unfolding evaluate_id_leaf [OF ty]
      by (auto simp: evaluate_id_def E_prime_def T_prime_def split: if_splits option.splits)
         metis+
    with n' show "well_evaluated n' \<and> node_value n' = x \<and> x \<noteq> None \<and> rule n' = ''F''"
      by (auto simp: E_prime_def T_prime_def)
  qed
qed


text \<open>
  Claim C1.  In the tree of every accepted token sequence the cached values follow the
  evaluation rules: an \<open>E'\<close> node without children holds 0 and one built from \<open>+ T E'\<close> holds
  the sum of the values of \<open>T\<close> and \<open>E'\<close>; a \<open>T'\<close> node without children holds 1 and one built
  from \<open>* F T'\<close> holds the product of the values of \<open>F\<close> and \<open>T'\<close>; an \<open>E\<close> node holds the sum
  of the values of \<open>T\<close> and \<open>E'\<close>; a \<open>T\<close> node holds the product of the values of \<open>F\<close> and
  \<open>T'\<close>, or the value of \<open>F\<close> alone when the value of \<open>T'\<close> is 1; an \<open>F\<close> node holds the value
  of its inner \<open>E\<close> or of its \<open>id\<close> child; an \<open>id\<close> leaf holds the integer its text denotes when
  the text is all digits and 1 otherwise.  The value returned by \<open>parse\<close> is the value of
  the root.
\<close>

theorem parse_values_follow_rules:
  assumes "parse d ts = Some (Inr (root, v))"
  shows "well_evaluated root \<and> node_value root = v"
proof -
  from parse_success [OF assms] obtain r0 where
    r0: "derive d ts = Some (Inr r0)" and ev: "evaluate r0 = (root, Inr v)"
    by blast
  from derives_evaluates_well(1) [OF derive_derives [OF r0]] ev
  show ?thesis by (simp add: evaluates_well_def)
qed

theorem parse_values_follow_rules_witness:
  "\<exists>root. parse 4 [Token_init ID ''7'' 0] = Some (Inr (root, Some 7)) \<and>
          well_evaluated root \<and> node_value root = Some 7"
proof -
  have p: "parse 4 [Token_init ID ''7'' 0] =
           Some (Inr (ParseTreeNode ''E''
                        [ParseTreeNode ''T''
                           [ParseTreeNode ''F''
                              [ParseTreeNode ''id'' [] (Some (Token_init ID ''7'' 0)) (Some 7)]
                              None (Some 7),
                            ParseTreeNode (''T'' @ [CHR 0x27]) [] None (Some 1)]
                           None (Some 7),
                         ParseTreeNode (''E'' @ [CHR 0x27]) [] None (Some 0)]
                        None (Some 7), Some 7))"
    by code_simp
  from parse_values_follow_rules [OF p] p show ?thesis by blast
qed


section \<open>Worked examples\<close>

text \<open>
  Claim C2.  Tokenizing \<open>3+4*5\<close> gives the five tokens id 3, plus, id 4, multiply, id 5,
  and parsing them is accepted with value 23; \<open>(1+2)*3\<close> is accepted with value 9;
  \<open>a+b\<close> is accepted and, each letter counting 1, has value 2.  Twelve nested calls are
  enough for each of the three.
\<close>

theorem tokenize_parse_examples:
  "tokenize ''3+4*5'' =
     Inr [Token_init ID ''3'' 0, Token_init PLUS ''+'' 1, Token_init ID ''4'' 2,
          Token_init MULTIPLY ''*'' 3, Token_init ID ''5'' 4] \<and>
   (case tokenize ''3+4*5'' of Inl e \<Rightarrow> False
    | Inr ts \<Rightarrow> length ts = 5 \<and>
        map_option (map_sum id snd) (parse 12 ts) = Some (Inr (Some 23))) \<and>
   (case tokenize ''(1+2)*3'' of Inl e \<Rightarrow> False
    | Inr ts \<Rightarrow> map_option (map_sum id snd) (parse 12 ts) = Some (Inr (Some 9))) \<and>
   (case tokenize ''a+b'' of Inl e \<Rightarrow> False
    | Inr ts \<Rightarrow> map_option (map_sum id snd) (parse 12 ts) = Some (Inr (Some 2)))"
  by code_simp

end
